theory Spec2Isabelle
  imports Complex_Main "HOL-Library.Finite_Map"
begin

section \<open>Data model of \<^verbatim>\<open>Fish_game.py\<close>\<close>

text \<open>
  The development follows \<^verbatim>\<open>src/Fish_game.py\<close>, the most complete of the five copies of
  the game. Only the game core is modelled. The fields that serve the presentation alone
  (\<^verbatim>\<open>info_text\<close>, particles, floating numbers, \<^verbatim>\<open>move_history\<close>, \<^verbatim>\<open>ai_move_timer\<close>,
  hover and debug positions, textures) are left out, and so are the statements that only
  write them. Python method names lose their leading underscore.

  A hex cell is a pair \<open>(row, col)\<close> of Python integers. Python dictionaries keyed by cells
  are finite maps; the ordered dictionary of the six labelled neighbours is an association
  list, since its iteration order fixes the order of the computed moves.
\<close>

type_synonym coord = "int \<times> int"

datatype GameState = SETUP | PLACING_PENGUINS | PLAYING | GAME_OVER

record Player =
  name :: string
  color :: string
  age :: int
  is_ai :: bool
  fish_count :: int
  penguins :: "coord list"

record Tile =
  row :: int
  col :: int
  fish :: int
  exists :: bool

record HexGrid =
  rows :: int
  cols :: int
  tiles :: "(coord, Tile) fmap"

text \<open>
  \<^verbatim>\<open>current_animation\<close> is \<^verbatim>\<open>(start_pos, end_pos, progress, player_index)\<close>; an entry of
  \<^verbatim>\<open>animation_queue\<close> is \<^verbatim>\<open>(from_pos, to_pos, player_index)\<close>. Player indices are list
  positions, hence natural numbers: the code only ever produces them with
  \<^verbatim>\<open>% len(self.players)\<close>.
\<close>

record FishGame =
  game_state :: GameState
  players :: "Player list"
  current_player_index :: nat
  selected_penguin :: "coord option"
  valid_moves :: "coord list"
  grid :: HexGrid
  penguin_positions :: "(coord, nat) fmap"
  minimax_depth :: nat
  current_animation :: "(coord \<times> coord \<times> real \<times> nat) option"
  animation_queue :: "(coord \<times> coord \<times> nat) list"
  animation_speed :: real

text \<open>
  Python exceptions the modelled statements can raise: \<^verbatim>\<open>dict.pop\<close> and \<^verbatim>\<open>d[k]\<close> on a
  missing key, \<^verbatim>\<open>list.remove\<close> of a missing element (and \<^verbatim>\<open>max\<close> of an empty sequence),
  \<^verbatim>\<open>xs[i]\<close> out of range, \<^verbatim>\<open>%\<close> by zero. \<open>Unmodelled\<close> is no Python exception: it marks
  the three places where the model stops following the code: the bound of \<open>for_penguins\<close>,
  which lemma \<open>good_minimax\<close> shows is never reached, a search depth of zero in
  \<open>ai_best_move\<close>, and the computer's turn at the end of \<open>on_update\<close>. A call either
  returns a value or raises; both outcomes carry the game object as the call left it,
  because methods mutate \<^verbatim>\<open>self\<close> in place and an exception does not roll it back.
\<close>

datatype error = KeyError | ValueError | IndexError | ZeroDivisionError | Unmodelled

datatype 'a res = Ok 'a FishGame | Raised error FishGame

section \<open>\<^verbatim>\<open>HexGrid\<close>\<close>

definition get_tile :: "HexGrid \<Rightarrow> int \<Rightarrow> int \<Rightarrow> Tile option" where
  "get_tile g r c = fmlookup (tiles g) (r, c)"

text \<open>
  \<^verbatim>\<open>remove_tile\<close> returns the fish count and the grid after the deletion. The test
  \<^verbatim>\<open>if tile:\<close> is true for every \<^verbatim>\<open>Tile\<close> object (a dataclass instance is truthy), so
  it only separates a found tile from \<^verbatim>\<open>None\<close>.
\<close>

definition remove_tile :: "HexGrid \<Rightarrow> int \<Rightarrow> int \<Rightarrow> int \<times> HexGrid" where
  "remove_tile g r c =
     (case fmlookup (tiles g) (r, c) of
        Some tile \<Rightarrow> (fish tile, g\<lparr>tiles := fmdrop (r, c) (tiles g)\<rparr>)
      | None \<Rightarrow> (0, g))"

section \<open>Move generation\<close>

datatype direction = E | NE | NW | W | SW | SE

definition get_hex_neighbors_with_direction :: "int \<Rightarrow> int \<Rightarrow> (direction \<times> coord) list" where
  "get_hex_neighbors_with_direction r c =
     (if c mod 2 = 0
      then [(E, (r, c + 1)), (NE, (r - 1, c + 1)), (NW, (r - 1, c)),
            (W, (r, c - 1)), (SW, (r + 1, c)), (SE, (r + 1, c + 1))]
      else [(E, (r, c + 1)), (NE, (r - 1, c)), (NW, (r - 1, c - 1)),
            (W, (r, c - 1)), (SW, (r + 1, c - 1)), (SE, (r + 1, c))])"

definition get_next_in_direction :: "int \<Rightarrow> int \<Rightarrow> direction \<Rightarrow> coord option" where
  "get_next_in_direction r c direction_id =
     map_of (get_hex_neighbors_with_direction r c) direction_id"

text \<open>
  \<open>ahead d x\<close> is the coordinate that grows by one with every step along \<open>d\<close>; it
  bounds the \<^verbatim>\<open>while True\<close> loop of \<^verbatim>\<open>_get_valid_moves\<close>, whose every round stands on a
  tile of the finite board further along the line.
\<close>

fun ahead :: "direction \<Rightarrow> coord \<Rightarrow> int" where
  "ahead E (r, c) = c"
| "ahead W (r, c) = - c"
| "ahead NE (r, c) = - r"
| "ahead NW (r, c) = - r"
| "ahead SW (r, c) = r"
| "ahead SE (r, c) = r"

lemma ahead_next:
  "get_next_in_direction r c d = Some nxt \<Longrightarrow> ahead d nxt = ahead d (r, c) + 1"
  by (cases d) (auto simp: get_next_in_direction_def get_hex_neighbors_with_direction_def
      split: if_splits)

text \<open>
  The \<^verbatim>\<open>while True\<close> loop of one direction: \<open>cur\<close> is \<^verbatim>\<open>(current_row, current_col)\<close> and
  \<open>vm\<close> the list \<^verbatim>\<open>valid_moves\<close> built so far.
\<close>

function walk :: "FishGame \<Rightarrow> direction \<Rightarrow> coord \<Rightarrow> coord list \<Rightarrow> coord list" where
  "walk s direction_id cur vm =
     (if cur |\<notin>| fmdom (tiles (grid s)) then vm
      else if cur |\<in>| fmdom (penguin_positions s) then vm
      else (case get_next_in_direction (fst cur) (snd cur) direction_id of
              None \<Rightarrow> vm @ [cur]
            | Some next_pos \<Rightarrow> walk s direction_id next_pos (vm @ [cur])))"
  by pat_completeness auto
termination
proof (relation "measure (\<lambda>(s, d, cur, vm).
          card {x \<in> fmdom' (tiles (grid s)). ahead d cur \<le> ahead d x})")
  show "wf (measure (\<lambda>(s, d, cur, vm).
          card {x \<in> fmdom' (tiles (grid s)). ahead d cur \<le> ahead d x}))"
    by simp
next
  fix s :: FishGame and direction_id cur and vm :: "coord list" and next_pos
  assume on_board: "\<not> cur |\<notin>| fmdom (tiles (grid s))"
    and nxt: "get_next_in_direction (fst cur) (snd cur) direction_id = Some next_pos"
  let ?T = "fmdom' (tiles (grid s))"
  have step: "ahead direction_id next_pos = ahead direction_id cur + 1"
    using ahead_next [of "fst cur" "snd cur" direction_id next_pos] nxt by simp
  have fin: "finite {x \<in> ?T. ahead direction_id cur \<le> ahead direction_id x}"
    by simp
  have "cur \<in> ?T"
    using on_board by (simp add: fmdom'_alt_def)
  then have "cur \<in> {x \<in> ?T. ahead direction_id cur \<le> ahead direction_id x}
      - {x \<in> ?T. ahead direction_id next_pos \<le> ahead direction_id x}"
    using step by simp
  moreover have "{x \<in> ?T. ahead direction_id next_pos \<le> ahead direction_id x}
      \<subseteq> {x \<in> ?T. ahead direction_id cur \<le> ahead direction_id x}"
    using step by auto
  ultimately have "{x \<in> ?T. ahead direction_id next_pos \<le> ahead direction_id x}
      \<subset> {x \<in> ?T. ahead direction_id cur \<le> ahead direction_id x}"
    by blast
  then have "card {x \<in> ?T. ahead direction_id next_pos \<le> ahead direction_id x}
      < card {x \<in> ?T. ahead direction_id cur \<le> ahead direction_id x}"
    using fin by (rule psubset_card_mono [rotated])
  then show "((s, direction_id, next_pos, vm @ [cur]), (s, direction_id, cur, vm))
      \<in> measure (\<lambda>(s, d, cur, vm).
          card {x \<in> fmdom' (tiles (grid s)). ahead d cur \<le> ahead d x})"
    by simp
qed

declare walk.simps [simp del]

text \<open>
  \<^verbatim>\<open>_get_valid_moves\<close>: the \<^verbatim>\<open>for\<close> loop over \<^verbatim>\<open>neighbors.items()\<close> runs the walk of
  each direction from the labelled neighbour, all appending to the same list.
\<close>

definition get_valid_moves :: "FishGame \<Rightarrow> int \<Rightarrow> int \<Rightarrow> coord list" where
  "get_valid_moves s start_row start_col =
     fold (\<lambda>(direction_id, first) vm. walk s direction_id first vm)
       (get_hex_neighbors_with_direction start_row start_col) []"


section \<open>Placing and moving tokens\<close>

text \<open>\<open>update_player s i f\<close> is an in-place change of the object \<^verbatim>\<open>self.players[i]\<close>.\<close>

definition update_player :: "FishGame \<Rightarrow> nat \<Rightarrow> (Player \<Rightarrow> Player) \<Rightarrow> FishGame" where
  "update_player s i f = s\<lparr>players := (players s)[i := f (players s ! i)]\<rparr>"

text \<open>
  \<^verbatim>\<open>_move_penguin\<close>, statement by statement. The particles, the floating number and the
  move history it also writes are presentation and left out.
\<close>

definition move_penguin :: "FishGame \<Rightarrow> coord \<Rightarrow> coord \<Rightarrow> unit res" where
  "move_penguin s from_pos to_pos =
     (case fmlookup (penguin_positions s) from_pos of
        None \<Rightarrow> Raised KeyError s
      | Some player_index \<Rightarrow>
          let s1 = s\<lparr>penguin_positions := fmdrop from_pos (penguin_positions s)\<rparr>;
              (fish_collected, g) = remove_tile (grid s1) (fst from_pos) (snd from_pos);
              s2 = s1\<lparr>grid := g\<rparr>
          in if \<not> player_index < length (players s2) then Raised IndexError s2
             else
               let s3 = update_player s2 player_index
                          (\<lambda>p. p\<lparr>fish_count := fish_count p + fish_collected\<rparr>);
                   s4 = s3\<lparr>penguin_positions := fmupd to_pos player_index (penguin_positions s3)\<rparr>
               in if from_pos \<notin> set (penguins (players s4 ! player_index))
                  then Raised ValueError s4
                  else Ok () (update_player s4 player_index
                          (\<lambda>p. p\<lparr>penguins := remove1 from_pos (penguins p) @ [to_pos]\<rparr>)))"

text \<open>
  \<^verbatim>\<open>_place_penguin_at\<close>. The comparison \<^verbatim>\<open>total_penguins >= expected_penguins\<close> is on
  Python integers; \<^verbatim>\<open>6 - len(self.players)\<close> may be negative.
\<close>

definition place_penguin_at :: "FishGame \<Rightarrow> int \<Rightarrow> int \<Rightarrow> unit res" where
  "place_penguin_at s r c =
     (let s1 = s\<lparr>penguin_positions := fmupd (r, c) (current_player_index s) (penguin_positions s)\<rparr>
      in if \<not> current_player_index s1 < length (players s1) then Raised IndexError s1
         else
           let s2 = update_player s1 (current_player_index s1)
                      (\<lambda>p. p\<lparr>penguins := penguins p @ [(r, c)]\<rparr>);
               s3 = s2\<lparr>current_player_index := (current_player_index s2 + 1) mod length (players s2)\<rparr>;
               total_penguins = sum_list (map (\<lambda>p. int (length (penguins p))) (players s3));
               expected_penguins = int (length (players s3)) * (6 - int (length (players s3)))
           in if total_penguins \<ge> expected_penguins
              then Ok () (s3\<lparr>game_state := PLAYING, current_player_index := 0\<rparr>)
              else Ok () s3)"

definition handle_penguin_placement :: "FishGame \<Rightarrow> int \<Rightarrow> int \<Rightarrow> unit res" where
  "handle_penguin_placement s r c =
     (if (r, c) |\<notin>| fmdom (tiles (grid s)) then Ok () s
      else if (r, c) |\<in>| fmdom (penguin_positions s) then Ok () s
      else place_penguin_at s r c)"

text \<open>
  \<^verbatim>\<open>_start_animation\<close> records the move for the animation; \<^verbatim>\<open>_complete_move\<close> applies it
  when the animation has run.
\<close>

definition start_animation :: "FishGame \<Rightarrow> coord \<Rightarrow> coord \<Rightarrow> unit res" where
  "start_animation s from_pos to_pos =
     (case fmlookup (penguin_positions s) from_pos of
        None \<Rightarrow> Raised KeyError s
      | Some player_index \<Rightarrow>
          (case current_animation s of
             None \<Rightarrow> Ok () (s\<lparr>current_animation := Some (from_pos, to_pos, 0, player_index)\<rparr>)
           | Some a \<Rightarrow>
               Ok () (s\<lparr>animation_queue := animation_queue s @ [(from_pos, to_pos, player_index)]\<rparr>)))"

definition handle_gameplay_click :: "FishGame \<Rightarrow> int \<Rightarrow> int \<Rightarrow> unit res" where
  "handle_gameplay_click s r c =
     (case fmlookup (penguin_positions s) (r, c) of
        Some owner \<Rightarrow>
          if owner = current_player_index s
          then Ok () (s\<lparr>selected_penguin := Some (r, c), valid_moves := get_valid_moves s r c\<rparr>)
          else Ok () s
      | None \<Rightarrow>
          (case selected_penguin s of
             None \<Rightarrow> Ok () s
           | Some sel \<Rightarrow>
               if (r, c) \<in> set (valid_moves s)
               then (case start_animation s sel (r, c) of
                       Raised e s' \<Rightarrow> Raised e s'
                     | Ok u s' \<Rightarrow> Ok () (s'\<lparr>selected_penguin := None, valid_moves := []\<rparr>))
               else Ok () s))"

text \<open>
  \<^verbatim>\<open>on_mouse_press\<close> after the settings button: \<open>(r, c)\<close> is the cell that
  \<^verbatim>\<open>pixel_to_hex\<close> computed from the click position.
\<close>

definition on_mouse_press :: "FishGame \<Rightarrow> int \<Rightarrow> int \<Rightarrow> unit res" where
  "on_mouse_press s r c =
     (if \<not> current_player_index s < length (players s) then Raised IndexError s
      else if is_ai (players s ! current_player_index s) then Ok () s
      else if game_state s = PLACING_PENGUINS then handle_penguin_placement s r c
      else if game_state s = PLAYING then handle_gameplay_click s r c
      else Ok () s)"

section \<open>Turn order and the end of the game\<close>

text \<open>
  The loop \<^verbatim>\<open>for penguin_pos in player.penguins: if self._get_valid_moves(*penguin_pos): ...\<close>
  with its early exit, as it stands in \<^verbatim>\<open>_next_turn\<close> and \<^verbatim>\<open>_is_game_over\<close>.
\<close>

fun can_move :: "FishGame \<Rightarrow> coord list \<Rightarrow> bool" where
  "can_move s [] = False"
| "can_move s (penguin_pos # rest) =
     (if get_valid_moves s (fst penguin_pos) (snd penguin_pos) \<noteq> [] then True
      else can_move s rest)"

fun game_over_loop :: "FishGame \<Rightarrow> Player list \<Rightarrow> bool" where
  "game_over_loop s [] = True"
| "game_over_loop s (player # rest) =
     (if can_move s (penguins player) then False else game_over_loop s rest)"

definition is_game_over :: "FishGame \<Rightarrow> bool" where
  "is_game_over s = game_over_loop s (players s)"

text \<open>
  \<^verbatim>\<open>_end_game\<close> sets the phase and computes the winners for the game-over view;
  \<^verbatim>\<open>max\<close> of no players raises \<^verbatim>\<open>ValueError\<close>.
\<close>

definition end_game :: "FishGame \<Rightarrow> unit res" where
  "end_game s =
     (let s1 = s\<lparr>game_state := GAME_OVER\<rparr>
      in if players s1 = [] then Raised ValueError s1 else Ok () s1)"

text \<open>The \<^verbatim>\<open>while attempts < len(self.players)\<close> loop of \<^verbatim>\<open>_next_turn\<close>.\<close>

function next_turn_loop :: "FishGame \<Rightarrow> nat \<Rightarrow> unit res" where
  "next_turn_loop s attempts =
     (if attempts < length (players s) then
        let s1 = s\<lparr>current_player_index := (current_player_index s + 1) mod length (players s)\<rparr>
        in if can_move s1 (penguins (players s1 ! current_player_index s1)) then Ok () s1
           else next_turn_loop s1 (attempts + 1)
      else end_game s)"
  by pat_completeness auto
termination
  by (relation "measure (\<lambda>(s, attempts). length (players s) - attempts)") auto

declare next_turn_loop.simps [simp del]

definition next_turn :: "FishGame \<Rightarrow> unit res" where
  "next_turn s = next_turn_loop s 0"

definition complete_move :: "FishGame \<Rightarrow> coord \<Rightarrow> coord \<Rightarrow> nat \<Rightarrow> unit res" where
  "complete_move s from_pos to_pos player_index =
     (case move_penguin s from_pos to_pos of
        Raised e s' \<Rightarrow> Raised e s'
      | Ok u s' \<Rightarrow> next_turn s')"

text \<open>
  \<^verbatim>\<open>on_update\<close>, called once per frame. \<open>animation_step\<close> is its block
  \<^verbatim>\<open>if self.current_animation:\<close>, which advances the running animation by
  \<^verbatim>\<open>self.animation_speed\<close>, applies the move when the progress reaches 1 and then starts the
  first queued animation. The update of the particles is presentation. The last block, the
  computer's turn, runs when the player read at the start of the call is the computer and
  no animation is left; it depends on a wall-clock timer and, in the Placing phase, on
  \<^verbatim>\<open>random.choice\<close>, and is outside the model.
\<close>

definition animation_step :: "FishGame \<Rightarrow> unit res" where
  "animation_step s =
     (case current_animation s of
        None \<Rightarrow> Ok () s
      | Some (start_pos, end_pos, progress, player_index) \<Rightarrow>
          let progress' = progress + animation_speed s
          in if progress' \<ge> 1
             then (case complete_move s start_pos end_pos player_index of
                     Raised e s' \<Rightarrow> Raised e s'
                   | Ok u s1 \<Rightarrow>
                       let s2 = s1\<lparr>current_animation := None\<rparr>
                       in (case animation_queue s2 of
                             [] \<Rightarrow> Ok () s2
                           | next_anim # rest \<Rightarrow>
                               Ok () (s2\<lparr>animation_queue := rest,
                                        current_animation :=
                                          Some (fst next_anim, fst (snd next_anim), 0,
                                                snd (snd next_anim))\<rparr>)))
             else Ok () (s\<lparr>current_animation :=
                             Some (start_pos, end_pos, progress', player_index)\<rparr>))"

definition on_update :: "FishGame \<Rightarrow> real \<Rightarrow> unit res" where
  "on_update s delta_time =
     (if \<not> current_player_index s < length (players s) then Raised IndexError s
      else
        let current_player = players s ! current_player_index s
        in (case animation_step s of
              Raised e s' \<Rightarrow> Raised e s'
            | Ok u s1 \<Rightarrow>
                if is_ai current_player \<and> current_animation s1 = None
                then Raised Unmodelled s1
                else Ok () s1))"


section \<open>The search of the computer player\<close>

text \<open>
  \<^verbatim>\<open>_make_temp_move\<close> and \<^verbatim>\<open>_undo_temp_move\<close> change the live game object during the
  search. The undo stores a new \<^verbatim>\<open>Tile(from_row, from_col, fish_collected)\<close>, whose
  \<^verbatim>\<open>exists\<close> field takes its default \<^verbatim>\<open>True\<close>.
\<close>

definition make_temp_move :: "FishGame \<Rightarrow> coord \<Rightarrow> coord \<Rightarrow> int res" where
  "make_temp_move s from_pos to_pos =
     (case fmlookup (penguin_positions s) from_pos of
        None \<Rightarrow> Raised KeyError s
      | Some player_index \<Rightarrow>
          let s1 = s\<lparr>penguin_positions := fmdrop from_pos (penguin_positions s)\<rparr>;
              (fish_collected, g) = remove_tile (grid s1) (fst from_pos) (snd from_pos);
              s2 = s1\<lparr>grid := g\<rparr>
          in if \<not> player_index < length (players s2) then Raised IndexError s2
             else
               let s3 = update_player s2 player_index
                          (\<lambda>p. p\<lparr>fish_count := fish_count p + fish_collected\<rparr>);
                   s4 = s3\<lparr>penguin_positions := fmupd to_pos player_index (penguin_positions s3)\<rparr>
               in if from_pos \<notin> set (penguins (players s4 ! player_index))
                  then Raised ValueError s4
                  else Ok fish_collected (update_player s4 player_index
                          (\<lambda>p. p\<lparr>penguins := remove1 from_pos (penguins p) @ [to_pos]\<rparr>)))"

definition undo_temp_move :: "FishGame \<Rightarrow> coord \<Rightarrow> coord \<Rightarrow> int \<Rightarrow> unit res" where
  "undo_temp_move s from_pos to_pos fish_collected =
     (case fmlookup (penguin_positions s) to_pos of
        None \<Rightarrow> Raised KeyError s
      | Some player_index \<Rightarrow>
          let s1 = s\<lparr>penguin_positions := fmdrop to_pos (penguin_positions s)\<rparr>;
              s2 = s1\<lparr>grid := (grid s1)\<lparr>tiles := fmupd from_pos
                      \<lparr>row = fst from_pos, col = snd from_pos, fish = fish_collected, exists = True\<rparr>
                      (tiles (grid s1))\<rparr>\<rparr>
          in if \<not> player_index < length (players s2) then Raised IndexError s2
             else
               let s3 = update_player s2 player_index
                          (\<lambda>p. p\<lparr>fish_count := fish_count p - fish_collected\<rparr>);
                   s4 = s3\<lparr>penguin_positions := fmupd from_pos player_index (penguin_positions s3)\<rparr>
               in if to_pos \<notin> set (penguins (players s4 ! player_index))
                  then Raised ValueError s4
                  else Ok () (update_player s4 player_index
                          (\<lambda>p. p\<lparr>penguins := remove1 to_pos (penguins p) @ [from_pos]\<rparr>)))"

text \<open>
  \<^verbatim>\<open>_evaluate_board\<close>. Python computes the value in floating point; the model computes it
  in the real numbers, so it tells nothing about rounding: 0.3 is no double, and a value
  that is -2/5 here is -0.3999999999999999 there. The positions evaluated below only meet
  values that both computations represent exactly. \<open>opponents\<close> are the players
  that the two \<^verbatim>\<open>enumerate\<close> loops select with \<^verbatim>\<open>i != self.current_player_index\<close>.
\<close>

definition mobility :: "FishGame \<Rightarrow> Player \<Rightarrow> int" where
  "mobility s player =
     sum_list (map (\<lambda>penguin_pos.
        int (length (get_valid_moves s (fst penguin_pos) (snd penguin_pos)))) (penguins player))"

definition opponents :: "FishGame \<Rightarrow> Player list" where
  "opponents s =
     map snd (filter (\<lambda>(i, player). i \<noteq> current_player_index s) (enumerate 0 (players s)))"

definition evaluate_board :: "FishGame \<Rightarrow> real res" where
  "evaluate_board s =
     (if \<not> current_player_index s < length (players s) then Raised IndexError s
      else
        let current_player = players s ! current_player_index s;
            score0 = real_of_int (fish_count current_player);
            opponent_fish_total = sum_list (map fish_count (opponents s));
            opponent_count = length (opponents s);
            score1 = (if opponent_count > 0
                      then score0 - real_of_int opponent_fish_total / real opponent_count
                      else score0);
            score2 = score1 + real_of_int (mobility s current_player) * 0.5;
            opponent_mobility = sum_list (map (mobility s) (opponents s));
            score3 = (if opponent_count > 0
                      then score2 - (real_of_int opponent_mobility / real opponent_count) * 0.3
                      else score2)
        in Ok score3 s)"

text \<open>
  Search values are Python floats that start at \<^verbatim>\<open>float('-inf')\<close> or \<^verbatim>\<open>float('inf')\<close>.
  \<open>py_max a b\<close> and \<open>py_min a b\<close> are \<^verbatim>\<open>max(a, b)\<close> and \<^verbatim>\<open>min(a, b)\<close>, which keep the first
  argument unless the second is strictly better; \<open>score_le\<close> is \<^verbatim>\<open><=\<close>.
\<close>

datatype score = NegInf | Fin real | PosInf

fun score_less :: "score \<Rightarrow> score \<Rightarrow> bool" where
  "score_less NegInf NegInf = False"
| "score_less NegInf _ = True"
| "score_less (Fin x) (Fin y) = (x < y)"
| "score_less (Fin x) PosInf = True"
| "score_less (Fin x) NegInf = False"
| "score_less PosInf _ = False"

definition score_le :: "score \<Rightarrow> score \<Rightarrow> bool" where
  "score_le a b = (\<not> score_less b a)"

definition py_max :: "score \<Rightarrow> score \<Rightarrow> score" where
  "py_max a b = (if score_less a b then b else a)"

definition py_min :: "score \<Rightarrow> score \<Rightarrow> score" where
  "py_min a b = (if score_less b a then b else a)"

definition evaluate :: "FishGame \<Rightarrow> score res" where
  "evaluate s = (case evaluate_board s of Raised e s' \<Rightarrow> Raised e s' | Ok v s' \<Rightarrow> Ok (Fin v) s')"

text \<open>
  \<^verbatim>\<open>for penguin_pos in current_player.penguins:\<close> runs over the live list of the player
  object \<^verbatim>\<open>self.players[idx]\<close>: the iterator holds an index \<open>i\<close> and reads the list
  again at every round, while the loop body (a temporary move and its undo) removes from
  and appends to that same list. The model therefore reads the list from the current
  state at every round. \<open>bound\<close> counts the rounds left; it starts as the length of the
  list, and \<open>Unmodelled\<close> is the result should the list ever be longer than that.
\<close>

fun for_penguins ::
  "(coord \<Rightarrow> 'a \<Rightarrow> FishGame \<Rightarrow> 'a res) \<Rightarrow> nat \<Rightarrow> nat \<Rightarrow> nat \<Rightarrow> 'a \<Rightarrow> FishGame \<Rightarrow> 'a res" where
  "for_penguins body idx 0 i acc s =
     (if i < length (penguins (players s ! idx)) then Raised Unmodelled s else Ok acc s)"
| "for_penguins body idx (Suc bound) i acc s =
     (if i < length (penguins (players s ! idx))
      then (case body (penguins (players s ! idx) ! i) acc s of
              Raised e s' \<Rightarrow> Raised e s'
            | Ok acc' s' \<Rightarrow> for_penguins body idx bound (Suc i) acc' s')
      else Ok acc s)"

text \<open>
  \<^verbatim>\<open>self.current_player_index = (self.current_player_index + delta) % len(self.players)\<close>
  with Python's non-negative remainder.
\<close>

definition switch_player :: "FishGame \<Rightarrow> int \<Rightarrow> unit res" where
  "switch_player s delta =
     (if players s = [] then Raised ZeroDivisionError s
      else Ok () (s\<lparr>current_player_index :=
              nat ((int (current_player_index s) + delta) mod int (length (players s)))\<rparr>))"

text \<open>
  The inner loop \<^verbatim>\<open>for move_pos in valid_moves:\<close> of \<^verbatim>\<open>_minimax\<close>; \<open>child\<close> is the
  recursive call, \<open>(best, alpha, beta)\<close> are \<^verbatim>\<open>max_eval\<close> or \<^verbatim>\<open>min_eval\<close>, \<^verbatim>\<open>alpha\<close> and
  \<^verbatim>\<open>beta\<close>. The \<^verbatim>\<open>break\<close> leaves this loop only; the loop over the tokens goes on.
\<close>

fun for_moves ::
  "(score \<Rightarrow> score \<Rightarrow> FishGame \<Rightarrow> score res) \<Rightarrow> bool \<Rightarrow> coord \<Rightarrow> coord list \<Rightarrow>
     score \<times> score \<times> score \<Rightarrow> FishGame \<Rightarrow> (score \<times> score \<times> score) res" where
  "for_moves child maximizing_player penguin_pos [] acc s = Ok acc s"
| "for_moves child maximizing_player penguin_pos (move_pos # rest) (best, alpha, beta) s =
     (case make_temp_move s penguin_pos move_pos of
        Raised e s' \<Rightarrow> Raised e s'
      | Ok fish_collected s1 \<Rightarrow>
     (case switch_player s1 1 of
        Raised e s' \<Rightarrow> Raised e s'
      | Ok u s2 \<Rightarrow>
     (case child alpha beta s2 of
        Raised e s' \<Rightarrow> Raised e s'
      | Ok eval_score s3 \<Rightarrow>
     (case switch_player s3 (- 1) of
        Raised e s' \<Rightarrow> Raised e s'
      | Ok u s4 \<Rightarrow>
     (case undo_temp_move s4 penguin_pos move_pos fish_collected of
        Raised e s' \<Rightarrow> Raised e s'
      | Ok u s5 \<Rightarrow>
          if maximizing_player
          then let max_eval = py_max best eval_score; alpha' = py_max alpha eval_score
               in if score_le beta alpha' then Ok (max_eval, alpha', beta) s5
                  else for_moves child maximizing_player penguin_pos rest (max_eval, alpha', beta) s5
          else let min_eval = py_min best eval_score; beta' = py_min beta eval_score
               in if score_le beta' alpha then Ok (min_eval, alpha, beta') s5
                  else for_moves child maximizing_player penguin_pos rest (min_eval, alpha, beta') s5)))))"

fun minimax :: "nat \<Rightarrow> score \<Rightarrow> score \<Rightarrow> bool \<Rightarrow> FishGame \<Rightarrow> score res" where
  "minimax 0 alpha beta maximizing_player s = evaluate s"
| "minimax (Suc depth) alpha beta maximizing_player s =
     (if is_game_over s then evaluate s
      else if \<not> current_player_index s < length (players s) then Raised IndexError s
      else
        (case for_penguins
                (\<lambda>penguin_pos acc s'.
                   for_moves (\<lambda>a b. minimax depth a b (\<not> maximizing_player)) maximizing_player
                     penguin_pos (get_valid_moves s' (fst penguin_pos) (snd penguin_pos)) acc s')
                (current_player_index s)
                (length (penguins (players s ! current_player_index s))) 0
                (if maximizing_player then NegInf else PosInf, alpha, beta) s of
           Raised e s' \<Rightarrow> Raised e s'
         | Ok (best, a, b) s' \<Rightarrow> Ok best s'))"


text \<open>
  \<^verbatim>\<open>_ai_make_move\<close>: the inner loop of the root, which does not switch the player before
  it calls \<^verbatim>\<open>_minimax\<close>; the search with the final restoration of the four deep copies
  (\<open>ai_best_move\<close>, whose value is \<^verbatim>\<open>best_move\<close>); and the use of the result. The field
  \<^verbatim>\<open>minimax_depth\<close> is 3 at construction and the settings view stores 1 to 5 only, so
  \<^verbatim>\<open>self.minimax_depth - 1\<close> is a natural number; a depth of zero is outside the model.
\<close>

fun for_root_moves ::
  "nat \<Rightarrow> coord \<Rightarrow> coord list \<Rightarrow> score \<times> (coord \<times> coord) option \<times> score \<times> score \<Rightarrow>
     FishGame \<Rightarrow> (score \<times> (coord \<times> coord) option \<times> score \<times> score) res" where
  "for_root_moves depth penguin_pos [] acc s = Ok acc s"
| "for_root_moves depth penguin_pos (move_pos # rest) (best_score, best_move, alpha, beta) s =
     (case make_temp_move s penguin_pos move_pos of
        Raised e s' \<Rightarrow> Raised e s'
      | Ok fish_collected s1 \<Rightarrow>
     (case minimax depth alpha beta False s1 of
        Raised e s' \<Rightarrow> Raised e s'
      | Ok score s2 \<Rightarrow>
     (case undo_temp_move s2 penguin_pos move_pos fish_collected of
        Raised e s' \<Rightarrow> Raised e s'
      | Ok u s3 \<Rightarrow>
          let (best_score', best_move') =
                (if score_less best_score score then (score, Some (penguin_pos, move_pos))
                 else (best_score, best_move));
              alpha' = py_max alpha best_score'
          in for_root_moves depth penguin_pos rest (best_score', best_move', alpha', beta) s3)))"

definition ai_best_move :: "FishGame \<Rightarrow> (coord \<times> coord) option res" where
  "ai_best_move s =
     (if minimax_depth s = 0 then Raised Unmodelled s
      else if \<not> current_player_index s < length (players s) then Raised IndexError s
      else
        (case for_penguins
                (\<lambda>penguin_pos acc s'.
                   for_root_moves (minimax_depth s' - 1) penguin_pos
                     (get_valid_moves s' (fst penguin_pos) (snd penguin_pos)) acc s')
                (current_player_index s)
                (length (penguins (players s ! current_player_index s))) 0
                (NegInf, None, NegInf, PosInf) s of
           Raised e s' \<Rightarrow> Raised e s'
         | Ok (best_score, best_move, alpha, beta) s' \<Rightarrow>
             Ok best_move
               (s'\<lparr>grid := grid s, penguin_positions := penguin_positions s,
                   players := players s, current_player_index := current_player_index s\<rparr>)))"

definition ai_make_move :: "FishGame \<Rightarrow> unit res" where
  "ai_make_move s =
     (case ai_best_move s of
        Raised e s' \<Rightarrow> Raised e s'
      | Ok best_move s' \<Rightarrow>
          (case best_move of
             Some (from_pos, to_pos) \<Rightarrow> start_animation s' from_pos to_pos
           | None \<Rightarrow> next_turn s'))"

section \<open>Reference notions for the claims\<close>

text \<open>
  The walk of one direction started with an empty list, and the notions the specification
  uses for move generation: the labelled neighbour \<open>step d x\<close> (the entry of label \<open>d\<close> in
  the table of \<^verbatim>\<open>_get_hex_neighbors_with_direction\<close>), the cell \<open>slide d x n\<close> reached by
  \<open>n\<close> steps with the one label \<open>d\<close>, a cell that has a tile and no token, and a cell
  reachable by sliding: some label and some positive number of steps lead to it, and every
  cell passed on the way, the destination included, has a tile and no token.
\<close>

definition trace :: "FishGame \<Rightarrow> direction \<Rightarrow> coord \<Rightarrow> coord list" where
  "trace s d cur = walk s d cur []"

definition step :: "direction \<Rightarrow> coord \<Rightarrow> coord" where
  "step d x = (case get_next_in_direction (fst x) (snd x) d of Some y \<Rightarrow> y | None \<Rightarrow> x)"

primrec slide :: "direction \<Rightarrow> coord \<Rightarrow> nat \<Rightarrow> coord" where
  "slide d x 0 = x"
| "slide d x (Suc n) = step d (slide d x n)"

definition free_cell :: "FishGame \<Rightarrow> coord \<Rightarrow> bool" where
  "free_cell s x \<longleftrightarrow> x |\<in>| fmdom (tiles (grid s)) \<and> x |\<notin>| fmdom (penguin_positions s)"

definition spec_reachable :: "FishGame \<Rightarrow> coord \<Rightarrow> coord \<Rightarrow> bool" where
  "spec_reachable s start x \<longleftrightarrow>
     (\<exists>d n. 0 < n \<and> x = slide d start n \<and> (\<forall>k. 0 < k \<and> k \<le> n \<longrightarrow> free_cell s (slide d start k)))"


text \<open>
  The scenario of the specification: two players, a board of four rows and two columns
  with two fish on every tile, one token each at \<open>(0, 0)\<close> and \<open>(3, 1)\<close>.
\<close>

definition mk_tile :: "int \<Rightarrow> int \<Rightarrow> int \<Rightarrow> coord \<times> Tile" where
  "mk_tile r c f = ((r, c), \<lparr>row = r, col = c, fish = f, exists = True\<rparr>)"

definition example_game :: FishGame where
  "example_game =
     \<lparr>game_state = PLAYING,
      players =
        [\<lparr>name = ''Player'', color = ''red'', age = 25, is_ai = False, fish_count = 0,
          penguins = [(0, 0)]\<rparr>,
         \<lparr>name = ''AI'', color = ''yellow'', age = 30, is_ai = True, fish_count = 0,
          penguins = [(3, 1)]\<rparr>],
      current_player_index = 0,
      selected_penguin = None,
      valid_moves = [],
      grid = \<lparr>rows = 4, cols = 2,
               tiles = fmap_of_list
                 [mk_tile 0 0 2, mk_tile 0 1 2, mk_tile 1 0 2, mk_tile 1 1 2,
                  mk_tile 2 0 2, mk_tile 2 1 2, mk_tile 3 0 2, mk_tile 3 1 2]\<rparr>,
      penguin_positions = fmap_of_list [((0, 0), 0), ((3, 1), 1)],
      minimax_depth = 3,
      current_animation = None,
      animation_queue = [],
      animation_speed = 0.05\<rparr>"

text \<open>
  A final position: every token stands on a tile without neighbours. A late position in
  which the player to move (the computer, index 1) has one mobile token at the end of a
  corridor of five tiles, and no other token can move; \<open>order_game\<close> is the same position
  with the mobile token first in its owner's list.
\<close>

definition stuck_game :: FishGame where
  "stuck_game =
     \<lparr>game_state = PLAYING,
      players =
        [\<lparr>name = ''Player'', color = ''red'', age = 25, is_ai = False, fish_count = 30,
          penguins = [(2, 6), (4, 0), (4, 2), (4, 4)]\<rparr>,
         \<lparr>name = ''AI'', color = ''yellow'', age = 30, is_ai = True, fish_count = 28,
          penguins = [(2, 0), (2, 2), (2, 4), (4, 6)]\<rparr>],
      current_player_index = 0,
      selected_penguin = None,
      valid_moves = [],
      grid = \<lparr>rows = 6, cols = 8,
               tiles = fmap_of_list
                 [mk_tile 2 0 1, mk_tile 2 2 1, mk_tile 2 4 1, mk_tile 2 6 1,
                  mk_tile 4 0 1, mk_tile 4 2 1, mk_tile 4 4 1, mk_tile 4 6 1]\<rparr>,
      penguin_positions = fmap_of_list
        [((2, 6), 0), ((4, 0), 0), ((4, 2), 0), ((4, 4), 0),
         ((2, 0), 1), ((2, 2), 1), ((2, 4), 1), ((4, 6), 1)],
      minimax_depth = 3,
      current_animation = None,
      animation_queue = [],
      animation_speed = 0.05\<rparr>"

definition corridor_game :: FishGame where
  "corridor_game =
     \<lparr>game_state = PLAYING,
      players =
        [\<lparr>name = ''Player'', color = ''red'', age = 25, is_ai = False, fish_count = 30,
          penguins = [(2, 6), (4, 0), (4, 2), (4, 4)]\<rparr>,
         \<lparr>name = ''AI'', color = ''yellow'', age = 30, is_ai = True, fish_count = 28,
          penguins = [(2, 0), (2, 2), (2, 4), (0, 0)]\<rparr>],
      current_player_index = 1,
      selected_penguin = None,
      valid_moves = [],
      grid = \<lparr>rows = 6, cols = 8,
               tiles = fmap_of_list
                 [mk_tile 0 0 1, mk_tile 0 1 2, mk_tile 0 2 3, mk_tile 0 3 1, mk_tile 0 4 2,
                  mk_tile 2 0 1, mk_tile 2 2 1, mk_tile 2 4 1, mk_tile 2 6 1,
                  mk_tile 4 0 1, mk_tile 4 2 1, mk_tile 4 4 1]\<rparr>,
      penguin_positions = fmap_of_list
        [((2, 6), 0), ((4, 0), 0), ((4, 2), 0), ((4, 4), 0),
         ((2, 0), 1), ((2, 2), 1), ((2, 4), 1), ((0, 0), 1)],
      minimax_depth = 3,
      current_animation = None,
      animation_queue = [],
      animation_speed = 0.05\<rparr>"

definition order_game :: FishGame where
  "order_game = update_player corridor_game 1
     (\<lambda>p. p\<lparr>penguins := [(0, 0), (2, 0), (2, 2), (2, 4)]\<rparr>)"

text \<open>
  A temporary move followed at once by its undo, as the search pairs them.
\<close>

definition temp_move_then_undo :: "FishGame \<Rightarrow> coord \<Rightarrow> coord \<Rightarrow> unit res" where
  "temp_move_then_undo s from_pos to_pos =
     (case make_temp_move s from_pos to_pos of
        Raised e s' \<Rightarrow> Raised e s'
      | Ok fish_collected s1 \<Rightarrow> undo_temp_move s1 from_pos to_pos fish_collected)"

text \<open>Whether a call returned, and the game object it left behind.\<close>

fun returned :: "'a res \<Rightarrow> bool" where
  "returned (Ok v s) = True"
| "returned (Raised e s) = False"

fun final_state :: "'a res \<Rightarrow> FishGame" where
  "final_state (Ok v s) = s"
| "final_state (Raised e s) = s"

text \<open>
  The two dictionaries of tokens agree when every player's list is free of repetitions and
  \<^verbatim>\<open>penguin_positions\<close> maps a cell to a player exactly if the cell is in that player's
  list. Token sets are disjoint when no list repeats a cell and no cell is in the lists of
  two players.
\<close>

definition consistent :: "Player list \<Rightarrow> (coord, nat) fmap \<Rightarrow> bool" where
  "consistent ps pos \<longleftrightarrow>
     (\<forall>i < length ps. distinct (penguins (ps ! i)))
     \<and> (\<forall>x i. fmlookup pos x = Some i \<longleftrightarrow> i < length ps \<and> x \<in> set (penguins (ps ! i)))"

definition tokens_consistent :: "FishGame \<Rightarrow> bool" where
  "tokens_consistent s = consistent (players s) (penguin_positions s)"

definition tokens_disjoint :: "FishGame \<Rightarrow> bool" where
  "tokens_disjoint s \<longleftrightarrow>
     (\<forall>i < length (players s). distinct (penguins (players s ! i)))
     \<and> (\<forall>i < length (players s). \<forall>j < length (players s). i \<noteq> j \<longrightarrow>
           set (penguins (players s ! i)) \<inter> set (penguins (players s ! j)) = {})"

text \<open>The board of \<open>example_game\<close> before any token is placed.\<close>

definition new_game :: FishGame where
  "new_game = example_game
     \<lparr>game_state := PLACING_PENGUINS,
      players := map (\<lambda>p. p\<lparr>penguins := []\<rparr>) (players example_game),
      penguin_positions := fmempty\<rparr>"

text \<open>
  A run of the program from \<open>queue_game\<close>, a position of the Playing phase with the human
  (index 0) to move, two of whose tokens, at \<open>(0, 0)\<close> and \<open>(0, 2)\<close>, can both reach the
  free cell \<open>(0, 1)\<close>. \<open>after\<close> chains calls as the event loop does, stopping at an
  exception; \<open>frames n\<close> is \<open>n\<close> calls of \<^verbatim>\<open>on_update\<close>. In \<open>queue_clicks\<close> the human
  clicks the token at \<open>(0, 0)\<close> and the cell \<open>(0, 1)\<close>, which starts an animation of twenty
  frames, then, nine frames later, the token at \<open>(0, 2)\<close> and, nine frames later again,
  the cell \<open>(0, 1)\<close>; \<open>queue_run\<close> lets the remaining two frames of the first animation
  and the twenty of the second follow.
\<close>

definition queue_game :: FishGame where
  "queue_game =
     \<lparr>game_state = PLAYING,
      players =
        [\<lparr>name = ''Player 1'', color = ''red'', age = 25, is_ai = False, fish_count = 20,
          penguins = [(0, 0), (0, 2), (2, 4), (2, 6)]\<rparr>,
         \<lparr>name = ''Player 2'', color = ''yellow'', age = 26, is_ai = True, fish_count = 20,
          penguins = [(4, 0), (4, 2), (4, 4), (4, 6)]\<rparr>],
      current_player_index = 0,
      selected_penguin = None,
      valid_moves = [],
      grid = \<lparr>rows = 6, cols = 8,
               tiles = fmap_of_list
                 [mk_tile 0 0 1, mk_tile 0 1 2, mk_tile 0 2 3, mk_tile 1 1 1,
                  mk_tile 2 4 1, mk_tile 2 6 1,
                  mk_tile 4 0 1, mk_tile 4 2 1, mk_tile 4 4 1, mk_tile 4 6 1]\<rparr>,
      penguin_positions = fmap_of_list
        [((0, 0), 0), ((0, 2), 0), ((2, 4), 0), ((2, 6), 0),
         ((4, 0), 1), ((4, 2), 1), ((4, 4), 1), ((4, 6), 1)],
      minimax_depth = 3,
      current_animation = None,
      animation_queue = [],
      animation_speed = 0.05\<rparr>"

definition after :: "unit res \<Rightarrow> (FishGame \<Rightarrow> unit res) \<Rightarrow> unit res" where
  "after r f = (case r of Raised e s \<Rightarrow> Raised e s | Ok u s \<Rightarrow> f s)"

fun frames :: "nat \<Rightarrow> FishGame \<Rightarrow> unit res" where
  "frames 0 s = Ok () s"
| "frames (Suc n) s = after (on_update s (1 / 60)) (frames n)"

definition queue_clicks :: "unit res" where
  "queue_clicks =
     after (after (after (after (after (on_mouse_press queue_game 0 0)
       (\<lambda>s. on_mouse_press s 0 1)) (frames 9))
       (\<lambda>s. on_mouse_press s 0 2)) (frames 9))
       (\<lambda>s. on_mouse_press s 0 1)"

definition queue_run :: "unit res" where
  "queue_run = after queue_clicks (frames 22)"

text \<open>
  For the search: the lengths of the players' token lists; the fields that the search
  never writes being equal in two states; and a result that keeps both (when the call
  returned) and is not the marker \<open>Unmodelled\<close>. \<open>skip_game\<close> is a position for a search of
  depth 1 in which the computer has two mobile tokens, the second in its list on the
  richer tile.
\<close>

definition profile :: "FishGame \<Rightarrow> nat list" where
  "profile s = map (\<lambda>p. length (penguins p)) (players s)"

definition framed :: "FishGame \<Rightarrow> FishGame \<Rightarrow> bool" where
  "framed s s' \<longleftrightarrow>
     game_state s' = game_state s \<and> selected_penguin s' = selected_penguin s
     \<and> valid_moves s' = valid_moves s \<and> minimax_depth s' = minimax_depth s
     \<and> current_animation s' = current_animation s \<and> animation_queue s' = animation_queue s
     \<and> animation_speed s' = animation_speed s"

definition good :: "FishGame \<Rightarrow> 'a res \<Rightarrow> bool" where
  "good s r \<longleftrightarrow>
     (\<forall>v s'. r = Ok v s' \<longrightarrow> profile s' = profile s \<and> framed s s')
     \<and> (\<forall>s'. r \<noteq> Raised Unmodelled s')"

definition skip_game :: FishGame where
  "skip_game =
     \<lparr>game_state = PLAYING,
      players =
        [\<lparr>name = ''Player'', color = ''red'', age = 25, is_ai = False, fish_count = 10,
          penguins = [(4, 0), (0, 6), (2, 6), (4, 6)]\<rparr>,
         \<lparr>name = ''AI'', color = ''yellow'', age = 30, is_ai = True, fish_count = 10,
          penguins = [(0, 0), (2, 0), (4, 2), (4, 4)]\<rparr>],
      current_player_index = 1,
      selected_penguin = None,
      valid_moves = [],
      grid = \<lparr>rows = 6, cols = 8,
               tiles = fmap_of_list
                 [mk_tile 0 0 1, mk_tile 0 1 1, mk_tile 2 0 3, mk_tile 2 1 1,
                  mk_tile 4 0 1, mk_tile 0 6 1, mk_tile 2 6 1, mk_tile 4 6 1,
                  mk_tile 4 2 1, mk_tile 4 4 1]\<rparr>,
      penguin_positions = fmap_of_list
        [((4, 0), 0), ((0, 6), 0), ((2, 6), 0), ((4, 6), 0),
         ((0, 0), 1), ((2, 0), 1), ((4, 2), 1), ((4, 4), 1)],
      minimax_depth = 1,
      current_animation = None,
      animation_queue = [],
      animation_speed = 0.05\<rparr>"

section \<open>Properties of move generation\<close>

lemma in_fmdom_lookup: "x |\<in>| fmdom m \<longleftrightarrow> fmlookup m x \<noteq> None"
  by (simp add: fmlookup_dom_iff)

lemmas eval_moves =
  get_valid_moves_def get_hex_neighbors_with_direction_def walk.simps
  get_next_in_direction_def mk_tile_def in_fmdom_lookup

lemma example_moves:
  "get_valid_moves example_game 0 0 = [(0, 1), (1, 0), (2, 0), (3, 0), (1, 1), (2, 1)]"
  by (simp add: eval_moves example_game_def)

lemma get_next_step: "get_next_in_direction r c d = Some (step d (r, c))"
  by (cases d) (simp_all add: step_def get_next_in_direction_def get_hex_neighbors_with_direction_def)

lemma slide_shift: "slide d x (Suc n) = slide d (step d x) n"
  by (induction n) simp_all

lemma ahead_step: "ahead d (step d x) = ahead d x + 1"
  using ahead_next [OF get_next_step, of d "fst x" "snd x"] by simp

lemma ahead_slide: "ahead d (slide d x n) = ahead d x + int n"
  by (induction n) (simp_all add: ahead_step)

lemma walk_trace: "walk s d cur vm = vm @ trace s d cur"
proof -
  have "\<forall>vm'. walk s d cur vm' = vm' @ trace s d cur"
  proof (rule walk.induct [of "\<lambda>s d cur _. \<forall>vm'. walk s d cur vm' = vm' @ trace s d cur" s d cur vm])
    fix s d cur and vm :: "coord list"
    assume IH: "\<And>x2. \<not> cur |\<notin>| fmdom (tiles (grid s)) \<Longrightarrow>
           \<not> cur |\<in>| fmdom (penguin_positions s) \<Longrightarrow>
           get_next_in_direction (fst cur) (snd cur) d = Some x2 \<Longrightarrow>
           \<forall>vm'. walk s d x2 vm' = vm' @ trace s d x2"
    show "\<forall>vm'. walk s d cur vm' = vm' @ trace s d cur"
    proof
      fix vm'
      show "walk s d cur vm' = vm' @ trace s d cur"
      proof (cases "cur |\<in>| fmdom (tiles (grid s)) \<and> cur |\<notin>| fmdom (penguin_positions s)")
        case False
        then show ?thesis
          by (auto simp: trace_def walk.simps [of s d cur])
      next
        case True
        have nxt: "get_next_in_direction (fst cur) (snd cur) d = Some (step d cur)"
          using get_next_step [of "fst cur" "snd cur" d] by simp
        from True nxt IH have R: "\<forall>vm'. walk s d (step d cur) vm' = vm' @ trace s d (step d cur)"
          by blast
        have "walk s d cur vm' = walk s d (step d cur) (vm' @ [cur])"
          using True nxt by (simp add: walk.simps [of s d cur])
        moreover have "trace s d cur = walk s d (step d cur) [cur]"
          using True nxt by (simp add: trace_def walk.simps [of s d cur])
        ultimately show ?thesis using R by simp
      qed
    qed
  qed
  then show ?thesis by blast
qed

lemma trace_simps:
  "trace s d cur = (if free_cell s cur then cur # trace s d (step d cur) else [])"
proof (cases "free_cell s cur")
  case True
  have nxt: "get_next_in_direction (fst cur) (snd cur) d = Some (step d cur)"
    using get_next_step [of "fst cur" "snd cur" d] by simp
  have "trace s d cur = walk s d (step d cur) [cur]"
    using True nxt by (simp add: trace_def walk.simps [of s d cur] free_cell_def)
  then show ?thesis using True by (simp add: walk_trace)
next
  case False
  then show ?thesis by (auto simp: trace_def walk.simps [of s d cur] free_cell_def)
qed

lemma set_trace:
  "set (trace s d cur) = {x. \<exists>n. x = slide d cur n \<and> (\<forall>k\<le>n. free_cell s (slide d cur k))}"
proof (rule walk.induct [of "\<lambda>s d cur _. set (trace s d cur) = {x. \<exists>n. x = slide d cur n \<and> (\<forall>k\<le>n. free_cell s (slide d cur k))}" s d cur "[]"])
  fix s d cur and vm :: "coord list"
  assume IH: "\<And>x2. \<not> cur |\<notin>| fmdom (tiles (grid s)) \<Longrightarrow>
           \<not> cur |\<in>| fmdom (penguin_positions s) \<Longrightarrow>
           get_next_in_direction (fst cur) (snd cur) d = Some x2 \<Longrightarrow>
           set (trace s d x2) = {x. \<exists>n. x = slide d x2 n \<and> (\<forall>k\<le>n. free_cell s (slide d x2 k))}"
  show "set (trace s d cur) = {x. \<exists>n. x = slide d cur n \<and> (\<forall>k\<le>n. free_cell s (slide d cur k))}"
  proof (cases "free_cell s cur")
    case False
    then have "\<And>n. \<not> (\<forall>k\<le>n. free_cell s (slide d cur k))"
      by (metis le0 slide.simps(1))
    with False show ?thesis by (simp add: trace_simps [of s d cur])
  next
    case True
    have nxt: "get_next_in_direction (fst cur) (snd cur) d = Some (step d cur)"
      using get_next_step [of "fst cur" "snd cur" d] by simp
    from True nxt IH have R: "set (trace s d (step d cur)) =
        {x. \<exists>n. x = slide d (step d cur) n \<and> (\<forall>k\<le>n. free_cell s (slide d (step d cur) k))}"
      by (simp add: free_cell_def)
    have all_shift: "\<And>n. (\<forall>k\<le>Suc n. free_cell s (slide d cur k)) \<longleftrightarrow>
        (\<forall>k\<le>n. free_cell s (slide d (step d cur) k))"
    proof
      fix n
      assume "\<forall>k\<le>Suc n. free_cell s (slide d cur k)"
      then show "\<forall>k\<le>n. free_cell s (slide d (step d cur) k)"
        by (metis Suc_le_mono slide_shift)
    next
      fix n
      assume A: "\<forall>k\<le>n. free_cell s (slide d (step d cur) k)"
      show "\<forall>k\<le>Suc n. free_cell s (slide d cur k)"
      proof (intro allI impI)
        fix k assume "k \<le> Suc n"
        then show "free_cell s (slide d cur k)"
          using A True by (cases k) (simp_all add: slide_shift del: slide.simps(2))
      qed
    qed
    have "set (trace s d cur) = insert cur (set (trace s d (step d cur)))"
      using True by (simp add: trace_simps [of s d cur])
    also have "\<dots> = {x. \<exists>n. x = slide d cur n \<and> (\<forall>k\<le>n. free_cell s (slide d cur k))}"
    proof (intro set_eqI iffI)
      fix x
      assume "x \<in> insert cur (set (trace s d (step d cur)))"
      then consider "x = cur" | n where "x = slide d (step d cur) n"
          "\<forall>k\<le>n. free_cell s (slide d (step d cur) k)"
        using R by auto
      then show "x \<in> {x. \<exists>n. x = slide d cur n \<and> (\<forall>k\<le>n. free_cell s (slide d cur k))}"
      proof cases
        case 1
        then show ?thesis using True by (auto intro: exI [of _ 0])
      next
        case 2
        then show ?thesis using all_shift [of n] slide_shift [of d cur n]
          by (auto intro!: exI [of _ "Suc n"] simp del: slide.simps(2))
      qed
    next
      fix x
      assume "x \<in> {x. \<exists>n. x = slide d cur n \<and> (\<forall>k\<le>n. free_cell s (slide d cur k))}"
      then obtain n where n: "x = slide d cur n" "\<forall>k\<le>n. free_cell s (slide d cur k)"
        by blast
      show "x \<in> insert cur (set (trace s d (step d cur)))"
      proof (cases n)
        case 0
        then show ?thesis using n by simp
      next
        case (Suc m)
        then show ?thesis using n all_shift [of m] slide_shift [of d cur m] R
          by auto
      qed
    qed
    finally show ?thesis .
  qed
qed


lemma fold_walk:
  "fold (\<lambda>(direction_id, first) vm. walk s direction_id first vm) ns acc =
     acc @ concat (map (\<lambda>(d, first). trace s d first) ns)"
proof (induction ns arbitrary: acc)
  case Nil
  then show ?case by simp
next
  case (Cons a ns)
  then show ?case by (cases a) (simp add: walk_trace)
qed

lemma neighbors_step:
  "get_hex_neighbors_with_direction r c =
     map (\<lambda>d. (d, step d (r, c))) [E, NE, NW, W, SW, SE]"
  by (simp add: step_def get_next_in_direction_def get_hex_neighbors_with_direction_def)

lemma direction_UNIV: "set [E, NE, NW, W, SW, SE] = UNIV"
proof -
  have "d \<in> set [E, NE, NW, W, SW, SE]" for d by (cases d) simp_all
  then show ?thesis by blast
qed

lemma get_valid_moves_traces:
  "get_valid_moves s r c = concat (map (\<lambda>d. trace s d (step d (r, c))) [E, NE, NW, W, SW, SE])"
  unfolding get_valid_moves_def fold_walk neighbors_step by (simp add: comp_def)

lemma set_get_valid_moves:
  "set (get_valid_moves s r c) = (\<Union>d. set (trace s d (step d (r, c))))"
proof -
  have "set (get_valid_moves s r c) = (\<Union>d\<in>set [E, NE, NW, W, SW, SE]. set (trace s d (step d (r, c))))"
    unfolding get_valid_moves_traces by simp
  then show ?thesis unfolding direction_UNIV .
qed


lemma get_valid_moves_reachable:
  "set (get_valid_moves s r c) = {x. spec_reachable s (r, c) x}"
proof (intro set_eqI iffI)
  fix x
  assume "x \<in> set (get_valid_moves s r c)"
  then obtain d n where n: "x = slide d (step d (r, c)) n"
      "\<forall>k\<le>n. free_cell s (slide d (step d (r, c)) k)"
    unfolding set_get_valid_moves set_trace by blast
  have "\<forall>k. 0 < k \<and> k \<le> Suc n \<longrightarrow> free_cell s (slide d (r, c) k)"
  proof (intro allI impI)
    fix k assume "0 < k \<and> k \<le> Suc n"
    then obtain j where "k = Suc j" "j \<le> n" by (cases k) auto
    then show "free_cell s (slide d (r, c) k)"
      using n(2) by (simp add: slide_shift del: slide.simps(2))
  qed
  moreover have "x = slide d (r, c) (Suc n)"
    using n(1) by (simp add: slide_shift del: slide.simps(2))
  ultimately have "spec_reachable s (r, c) x"
    unfolding spec_reachable_def by (intro exI [of _ d] exI [of _ "Suc n"]) simp
  then show "x \<in> {x. spec_reachable s (r, c) x}" by simp
next
  fix x
  assume "x \<in> {x. spec_reachable s (r, c) x}"
  then obtain d n where n: "0 < n" "x = slide d (r, c) n"
      "\<forall>k. 0 < k \<and> k \<le> n \<longrightarrow> free_cell s (slide d (r, c) k)"
    unfolding spec_reachable_def by blast
  then obtain m where m: "n = Suc m" by (cases n) auto
  have "x = slide d (step d (r, c)) m"
    using n(2) m by (simp add: slide_shift del: slide.simps(2))
  moreover have "\<forall>k\<le>m. free_cell s (slide d (step d (r, c)) k)"
  proof (intro allI impI)
    fix k assume "k \<le> m"
    then have "0 < Suc k \<and> Suc k \<le> n" using m by simp
    then have "free_cell s (slide d (r, c) (Suc k))" using n(3) by blast
    then show "free_cell s (slide d (step d (r, c)) k)"
      by (simp add: slide_shift del: slide.simps(2))
  qed
  ultimately have "x \<in> set (trace s d (step d (r, c)))"
    unfolding set_trace by blast
  then show "x \<in> set (get_valid_moves s r c)"
    unfolding set_get_valid_moves by blast
qed

lemma get_valid_moves_not_start: "(r, c) \<notin> set (get_valid_moves s r c)"
proof
  assume "(r, c) \<in> set (get_valid_moves s r c)"
  then obtain d n where "0 < n" "(r, c) = slide d (r, c) n"
    unfolding get_valid_moves_reachable spec_reachable_def by blast
  then show False using ahead_slide [of d "(r, c)" n] by simp
qed

lemma get_valid_moves_free:
  "\<forall>x \<in> set (get_valid_moves s r c).
     x |\<in>| fmdom (tiles (grid s)) \<and> x |\<notin>| fmdom (penguin_positions s)"
proof
  fix x
  assume "x \<in> set (get_valid_moves s r c)"
  then obtain d n where "0 < n" "x = slide d (r, c) n"
      "\<forall>k. 0 < k \<and> k \<le> n \<longrightarrow> free_cell s (slide d (r, c) k)"
    unfolding get_valid_moves_reachable spec_reachable_def by blast
  then have "free_cell s x" by blast
  then show "x |\<in>| fmdom (tiles (grid s)) \<and> x |\<notin>| fmdom (penguin_positions s)"
    by (simp add: free_cell_def)
qed

text \<open>
  Claim C1. For every game state and every start cell, \<^verbatim>\<open>_get_valid_moves\<close> returns
  exactly the cells reachable by sliding: a cell is returned if and only if some direction
  label, followed for a positive number of steps from the start, leads to it over cells
  that all have a tile and no token (so each walk ends before the first absent or occupied
  cell). The result never holds the start cell, an occupied cell or an absent cell. The
  statement needs no assumption that the start cell holds a token.
\<close>

theorem get_valid_moves_sliding:
  "set (get_valid_moves s r c) = {x. spec_reachable s (r, c) x}
   \<and> (r, c) \<notin> set (get_valid_moves s r c)
   \<and> (\<forall>x \<in> set (get_valid_moves s r c).
         x |\<in>| fmdom (tiles (grid s)) \<and> x |\<notin>| fmdom (penguin_positions s))"
  using get_valid_moves_reachable get_valid_moves_not_start get_valid_moves_free by blast

theorem get_valid_moves_sliding_witness:
  "set (get_valid_moves example_game 0 0) = {(0, 1), (1, 0), (2, 0), (3, 0), (1, 1), (2, 1)}
   \<and> spec_reachable example_game (0, 0) (2, 1)
   \<and> \<not> spec_reachable example_game (0, 0) (3, 1)
   \<and> (2, 1) |\<in>| fmdom (tiles (grid example_game))
   \<and> (2, 1) |\<notin>| fmdom (penguin_positions example_game)"
proof -
  note C = get_valid_moves_sliding [of example_game 0 0]
  have S: "set (get_valid_moves example_game 0 0) = {(0, 1), (1, 0), (2, 0), (3, 0), (1, 1), (2, 1)}"
    by (simp add: example_moves)
  have "(2, 1) \<in> set (get_valid_moves example_game 0 0)"
    and "(3, 1) \<notin> set (get_valid_moves example_game 0 0)"
    unfolding S by simp_all
  then have "spec_reachable example_game (0, 0) (2, 1)"
    and "\<not> spec_reachable example_game (0, 0) (3, 1)"
    and "(2, 1) |\<in>| fmdom (tiles (grid example_game))"
    and "(2, 1) |\<notin>| fmdom (penguin_positions example_game)"
    using C by blast+
  with S show ?thesis by blast
qed

section \<open>The end of the game\<close>

lemma can_move_iff:
  "can_move s ps \<longleftrightarrow> (\<exists>pos \<in> set ps. get_valid_moves s (fst pos) (snd pos) \<noteq> [])"
  by (induction ps) auto

lemma game_over_loop_iff:
  "game_over_loop s ps \<longleftrightarrow> (\<forall>player \<in> set ps. \<not> can_move s (penguins player))"
  by (induction ps) auto

text \<open>
  Claim C3. \<^verbatim>\<open>_is_game_over\<close> returns true if and only if no token of any player, whoever
  is to move, has a legal move.
\<close>

theorem is_game_over_iff:
  "is_game_over s \<longleftrightarrow>
     (\<forall>player \<in> set (players s). \<forall>pos \<in> set (penguins player).
        get_valid_moves s (fst pos) (snd pos) = [])"
  by (simp add: is_game_over_def game_over_loop_iff can_move_iff)

theorem is_game_over_iff_witness:
  "is_game_over stuck_game \<and> \<not> is_game_over example_game"
proof -
  have "get_valid_moves stuck_game 2 6 = []" "get_valid_moves stuck_game 4 0 = []"
    "get_valid_moves stuck_game 4 2 = []" "get_valid_moves stuck_game 4 4 = []"
    "get_valid_moves stuck_game 2 0 = []" "get_valid_moves stuck_game 2 2 = []"
    "get_valid_moves stuck_game 2 4 = []" "get_valid_moves stuck_game 4 6 = []"
    by (simp_all add: eval_moves stuck_game_def)
  then have "\<forall>player \<in> set (players stuck_game). \<forall>pos \<in> set (penguins player).
        get_valid_moves stuck_game (fst pos) (snd pos) = []"
    by (simp add: stuck_game_def)
  then have A: "is_game_over stuck_game"
    using is_game_over_iff [of stuck_game] by blast
  have "\<not> (\<forall>player \<in> set (players example_game). \<forall>pos \<in> set (penguins player).
        get_valid_moves example_game (fst pos) (snd pos) = [])"
    using example_moves by (simp add: example_game_def)
  then have "\<not> is_game_over example_game"
    using is_game_over_iff [of example_game] by blast
  with A show ?thesis by blast
qed

section \<open>Removing a tile\<close>

text \<open>
  Claim C4, as stated, fails where no tile exists: \<^verbatim>\<open>remove_tile\<close> raises nothing there;
  it returns 0 and leaves the board as it was.
\<close>

theorem remove_tile_absent_counterexample:
  "remove_tile \<lparr>rows = 1, cols = 1, tiles = fmempty\<rparr> 0 0
     = (0, \<lparr>rows = 1, cols = 1, tiles = fmempty\<rparr>)"
  by (simp add: remove_tile_def)

text \<open>
  Claim C4, amended. Where a tile exists, \<^verbatim>\<open>remove_tile\<close> deletes it (and nothing else of
  the grid) and returns the fish value that was present; where no tile exists it returns 0
  and leaves the grid unchanged, without an error.
\<close>

theorem remove_tile_result:
  "(fmlookup (tiles g) (r, c) = Some tile \<longrightarrow>
      fst (remove_tile g r c) = fish tile
      \<and> tiles (snd (remove_tile g r c)) = fmdrop (r, c) (tiles g)
      \<and> fmlookup (tiles (snd (remove_tile g r c))) (r, c) = None
      \<and> rows (snd (remove_tile g r c)) = rows g
      \<and> cols (snd (remove_tile g r c)) = cols g)
   \<and> (fmlookup (tiles g) (r, c) = None \<longrightarrow> remove_tile g r c = (0, g))"
  by (simp add: remove_tile_def)

theorem remove_tile_result_witness:
  "fmlookup (tiles (grid example_game)) (1, 1) = Some (snd (mk_tile 1 1 2))
   \<and> fst (remove_tile (grid example_game) 1 1) = 2
   \<and> fmlookup (tiles (snd (remove_tile (grid example_game) 1 1))) (1, 1) = None
   \<and> fmlookup (tiles (grid example_game)) (7, 7) = None
   \<and> remove_tile (grid example_game) 7 7 = (0, grid example_game)"
proof -
  have A: "fmlookup (tiles (grid example_game)) (1, 1) = Some (snd (mk_tile 1 1 2))"
    by (simp add: example_game_def mk_tile_def)
  have B: "fmlookup (tiles (grid example_game)) (7, 7) = None"
    by (simp add: example_game_def mk_tile_def)
  have F: "fish (snd (mk_tile 1 1 2)) = 2" by (simp add: mk_tile_def)
  show ?thesis
    using remove_tile_result [of "grid example_game" 1 1 "snd (mk_tile 1 1 2)"]
      remove_tile_result [of "grid example_game" 7 7 "snd (mk_tile 1 1 2)"] A B F
    by simp
qed

section \<open>Placement requests\<close>

text \<open>
  Claim C10. A placement request for a cell that has no tile or already holds a token
  returns without an error and leaves the whole game object unchanged: board, token map,
  token lists, scores, player to move and phase.
\<close>

theorem handle_penguin_placement_noop:
  "(r, c) |\<notin>| fmdom (tiles (grid s)) \<or> (r, c) |\<in>| fmdom (penguin_positions s) \<Longrightarrow>
     handle_penguin_placement s r c = Ok () s"
  by (auto simp: handle_penguin_placement_def)

theorem handle_penguin_placement_noop_witness:
  "(9, 9) |\<notin>| fmdom (tiles (grid new_game))
   \<and> handle_penguin_placement new_game 9 9 = Ok () new_game
   \<and> (3, 1) |\<in>| fmdom (penguin_positions (example_game\<lparr>game_state := PLACING_PENGUINS\<rparr>))
   \<and> handle_penguin_placement (example_game\<lparr>game_state := PLACING_PENGUINS\<rparr>) 3 1
       = Ok () (example_game\<lparr>game_state := PLACING_PENGUINS\<rparr>)"
proof -
  have A: "(9, 9) |\<notin>| fmdom (tiles (grid new_game))"
    by (simp add: new_game_def example_game_def mk_tile_def in_fmdom_lookup)
  have B: "(3, 1) |\<in>| fmdom (penguin_positions (example_game\<lparr>game_state := PLACING_PENGUINS\<rparr>))"
    by (simp add: example_game_def in_fmdom_lookup)
  show ?thesis
    using A B handle_penguin_placement_noop [of 9 9 new_game]
      handle_penguin_placement_noop [of 3 1 "example_game\<lparr>game_state := PLACING_PENGUINS\<rparr>"]
    by blast
qed

section \<open>Applying a move\<close>

text \<open>
  Claim C2. Let the token at \<open>from_pos\<close> stand on a present tile and let \<open>to_pos\<close> be one of
  its legal destinations; the token is known to both dictionaries (the position map names
  its owner \<open>p\<close>, and the owner's list holds it). Then \<^verbatim>\<open>_move_penguin\<close> returns, the tile
  at \<open>from_pos\<close> is gone and every other tile is as before, the score of \<open>p\<close> grew by exactly
  that tile's fish value, the token of \<open>p\<close> went from \<open>from_pos\<close> to \<open>to_pos\<close> (which held no
  token), and nothing else changed: the other players, the other tokens, the player to
  move, the phase and the remaining fields.
\<close>

theorem move_penguin_effect:
  assumes token: "fmlookup (penguin_positions s) from_pos = Some p"
    and owner: "p < length (players s)"
    and listed: "from_pos \<in> set (penguins (players s ! p))"
    and tile: "fmlookup (tiles (grid s)) from_pos = Some tile"
    and legal: "to_pos \<in> set (get_valid_moves s (fst from_pos) (snd from_pos))"
  shows "\<exists>s'. move_penguin s from_pos to_pos = Ok () s'
     \<and> tiles (grid s') = fmdrop from_pos (tiles (grid s))
     \<and> fmlookup (tiles (grid s')) from_pos = None
     \<and> (\<forall>x. x \<noteq> from_pos \<longrightarrow> fmlookup (tiles (grid s')) x = fmlookup (tiles (grid s)) x)
     \<and> rows (grid s') = rows (grid s) \<and> cols (grid s') = cols (grid s)
     \<and> length (players s') = length (players s)
     \<and> fish_count (players s' ! p) = fish_count (players s ! p) + fish tile
     \<and> penguins (players s' ! p) = remove1 from_pos (penguins (players s ! p)) @ [to_pos]
     \<and> name (players s' ! p) = name (players s ! p)
     \<and> color (players s' ! p) = color (players s ! p)
     \<and> age (players s' ! p) = age (players s ! p)
     \<and> is_ai (players s' ! p) = is_ai (players s ! p)
     \<and> (\<forall>i. i \<noteq> p \<longrightarrow> players s' ! i = players s ! i)
     \<and> fmlookup (penguin_positions s) to_pos = None
     \<and> penguin_positions s' = fmupd to_pos p (fmdrop from_pos (penguin_positions s))
     \<and> fmlookup (penguin_positions s') to_pos = Some p
     \<and> fmlookup (penguin_positions s') from_pos = None
     \<and> (\<forall>x. x \<noteq> from_pos \<and> x \<noteq> to_pos \<longrightarrow>
           fmlookup (penguin_positions s') x = fmlookup (penguin_positions s) x)
     \<and> game_state s' = game_state s
     \<and> current_player_index s' = current_player_index s
     \<and> selected_penguin s' = selected_penguin s \<and> valid_moves s' = valid_moves s
     \<and> minimax_depth s' = minimax_depth s
     \<and> current_animation s' = current_animation s \<and> animation_queue s' = animation_queue s
     \<and> animation_speed s' = animation_speed s"
proof -
  let ?s' = "s\<lparr>penguin_positions := fmupd to_pos p (fmdrop from_pos (penguin_positions s)),
      grid := (grid s)\<lparr>tiles := fmdrop from_pos (tiles (grid s))\<rparr>,
      players := (players s)[p := (players s ! p)
          \<lparr>fish_count := fish_count (players s ! p) + fish tile,
           penguins := remove1 from_pos (penguins (players s ! p)) @ [to_pos]\<rparr>]\<rparr>"
  have run: "move_penguin s from_pos to_pos = Ok () ?s'"
    using token owner listed tile
    by (cases from_pos)
      (simp add: move_penguin_def remove_tile_def update_player_def Let_def)
  have "to_pos |\<notin>| fmdom (penguin_positions s)"
    using legal get_valid_moves_free by blast
  then have free: "fmlookup (penguin_positions s) to_pos = None"
    by (simp add: in_fmdom_lookup)
  then have ne: "from_pos \<noteq> to_pos" using token by auto
  show ?thesis
    apply (rule exI [of _ ?s'])
    using run owner free ne by (simp add: nth_list_update)
qed

theorem move_penguin_effect_witness:
  "fmlookup (penguin_positions example_game) (0, 0) = Some 0
   \<and> (2, 1) \<in> set (get_valid_moves example_game 0 0)
   \<and> returned (move_penguin example_game (0, 0) (2, 1))
   \<and> fmlookup (tiles (grid (final_state (move_penguin example_game (0, 0) (2, 1))))) (0, 0) = None
   \<and> fish_count (players (final_state (move_penguin example_game (0, 0) (2, 1))) ! 0) = 2
   \<and> penguins (players (final_state (move_penguin example_game (0, 0) (2, 1))) ! 0) = [(2, 1)]"
proof -
  have token: "fmlookup (penguin_positions example_game) (0, 0) = Some 0"
    by (simp add: example_game_def)
  have owner: "0 < length (players example_game)"
    by (simp add: example_game_def)
  have listed: "(0, 0) \<in> set (penguins (players example_game ! 0))"
    by (simp add: example_game_def)
  have tile: "fmlookup (tiles (grid example_game)) (0, 0) = Some (snd (mk_tile 0 0 2))"
    by (simp add: example_game_def mk_tile_def)
  have legal: "(2, 1) \<in> set (get_valid_moves example_game (fst (0, 0)) (snd (0, 0)))"
    by (simp add: example_moves)
  from move_penguin_effect [OF token owner listed tile legal]
  obtain s' where "move_penguin example_game (0, 0) (2, 1) = Ok () s'"
    and "fmlookup (tiles (grid s')) (0, 0) = None"
    and "fish_count (players s' ! 0) = fish_count (players example_game ! 0) + fish (snd (mk_tile 0 0 2))"
    and "penguins (players s' ! 0) = remove1 (0, 0) (penguins (players example_game ! 0)) @ [(2, 1)]"
    by blast
  then show ?thesis using token legal
    by (simp add: example_game_def mk_tile_def)
qed





section \<open>Tokens sharing a cell\<close>

text \<open>
  What the two operations preserve: a placement request, and \<^verbatim>\<open>_move_penguin\<close> applied to a
  destination that is a legal move of the token at that moment, keep the two token
  dictionaries in agreement, and then no cell holds two tokens. \<^verbatim>\<open>_move_penguin\<close> itself
  does not check the destination.
\<close>

lemma consistent_disjoint:
  assumes "consistent ps pos"
  shows "(\<forall>i < length ps. distinct (penguins (ps ! i)))
     \<and> (\<forall>i < length ps. \<forall>j < length ps. i \<noteq> j \<longrightarrow>
           set (penguins (ps ! i)) \<inter> set (penguins (ps ! j)) = {})"
proof -
  have "set (penguins (ps ! i)) \<inter> set (penguins (ps ! j)) = {}"
    if "i < length ps" "j < length ps" "i \<noteq> j" for i j
  proof (rule ccontr)
    assume "set (penguins (ps ! i)) \<inter> set (penguins (ps ! j)) \<noteq> {}"
    then obtain x where "x \<in> set (penguins (ps ! i))" "x \<in> set (penguins (ps ! j))" by blast
    then have "fmlookup pos x = Some i" "fmlookup pos x = Some j"
      using assms that unfolding consistent_def by blast+
    then show False using that by simp
  qed
  then show ?thesis using assms unfolding consistent_def by blast
qed

lemma consistent_place:
  assumes C: "consistent ps pos" and free: "fmlookup pos x = None" and i: "i < length ps"
  shows "consistent (ps[i := (ps ! i)\<lparr>penguins := penguins (ps ! i) @ [x]\<rparr>]) (fmupd x i pos)"
proof -
  let ?ps = "ps[i := (ps ! i)\<lparr>penguins := penguins (ps ! i) @ [x]\<rparr>]"
  have pen: "penguins (?ps ! j) = (if j = i then penguins (ps ! i) @ [x] else penguins (ps ! j))"
    if "j < length ps" for j
    using that by (simp add: nth_list_update)
  have notin: "x \<notin> set (penguins (ps ! j))" if "j < length ps" for j
  proof
    assume "x \<in> set (penguins (ps ! j))"
    then have "fmlookup pos x = Some j" using C that unfolding consistent_def by blast
    then show False using free by simp
  qed
  have D: "\<forall>j < length ?ps. distinct (penguins (?ps ! j))"
    using C notin pen unfolding consistent_def by simp
  have L: "fmlookup (fmupd x i pos) y = Some j \<longleftrightarrow> j < length ?ps \<and> y \<in> set (penguins (?ps ! j))"
    for y j
  proof (cases "y = x")
    case True
    then show ?thesis using i pen notin by (auto split: if_splits)
  next
    case False
    have "fmlookup pos y = Some j \<longleftrightarrow> j < length ps \<and> y \<in> set (penguins (ps ! j))"
      using C unfolding consistent_def by blast
    then have "fmlookup (fmupd x i pos) y = Some j \<longleftrightarrow> j < length ps \<and> y \<in> set (penguins (ps ! j))"
      using False by simp
    then show ?thesis using False pen [of j] by (auto split: if_splits)
  qed
  show ?thesis unfolding consistent_def using D L by blast
qed

lemma consistent_move:
  assumes C: "consistent ps pos" and a: "fmlookup pos a = Some i" and b: "fmlookup pos b = None"
  shows "consistent
     (ps[i := (ps ! i)\<lparr>fish_count := n, penguins := remove1 a (penguins (ps ! i)) @ [b]\<rparr>])
     (fmupd b i (fmdrop a pos))"
proof -
  let ?q = "(ps ! i)\<lparr>fish_count := n, penguins := remove1 a (penguins (ps ! i)) @ [b]\<rparr>"
  let ?ps = "ps[i := ?q]"
  from C a have i: "i < length ps" and ai: "a \<in> set (penguins (ps ! i))"
    unfolding consistent_def by blast+
  have di: "distinct (penguins (ps ! i))" using C i unfolding consistent_def by blast
  have ab: "a \<noteq> b" using a b by auto
  have pen: "penguins (?ps ! j) =
      (if j = i then remove1 a (penguins (ps ! i)) @ [b] else penguins (ps ! j))"
    if "j < length ps" for j
    using that by (simp add: nth_list_update)
  have notin: "b \<notin> set (penguins (ps ! j))" if "j < length ps" for j
  proof
    assume "b \<in> set (penguins (ps ! j))"
    then have "fmlookup pos b = Some j" using C that unfolding consistent_def by blast
    then show False using b by simp
  qed
  have D: "\<forall>j < length ?ps. distinct (penguins (?ps ! j))"
  proof (intro allI impI)
    fix j assume j: "j < length ?ps"
    show "distinct (penguins (?ps ! j))"
    proof (cases "j = i")
      case True
      then show ?thesis using pen [of i] i di notin [of i] by (auto dest: notin_set_remove1)
    next
      case False
      then show ?thesis using pen [of j] j C unfolding consistent_def by simp
    qed
  qed
  have L: "fmlookup (fmupd b i (fmdrop a pos)) y = Some j
      \<longleftrightarrow> j < length ?ps \<and> y \<in> set (penguins (?ps ! j))" for y j
  proof -
    consider "y = b" | "y = a" | "y \<noteq> a" "y \<noteq> b" by blast
    then show ?thesis
    proof cases
      case 1
      then show ?thesis using i pen notin by (auto split: if_splits)
    next
      case 2
      have "\<not> (j < length ps \<and> a \<in> set (penguins (?ps ! j)))"
      proof
        assume A: "j < length ps \<and> a \<in> set (penguins (?ps ! j))"
        show False
        proof (cases "j = i")
          case True
          then have "a \<in> set (remove1 a (penguins (ps ! i)) @ [b])" using A pen [OF i] by simp
          then show False using di ab by simp
        next
          case False
          then have "a \<in> set (penguins (ps ! j))" using A pen by simp
          then have "fmlookup pos a = Some j" using C A unfolding consistent_def by blast
          then show False using a False by simp
        qed
      qed
      then show ?thesis using 2 ab by simp
    next
      case 3
      have "fmlookup pos y = Some j \<longleftrightarrow> j < length ps \<and> y \<in> set (penguins (ps ! j))"
        using C unfolding consistent_def by blast
      then have "fmlookup (fmupd b i (fmdrop a pos)) y = Some j
          \<longleftrightarrow> j < length ps \<and> y \<in> set (penguins (ps ! j))"
        using 3 by simp
      moreover have "y \<in> set (penguins (?ps ! j)) \<longleftrightarrow> y \<in> set (penguins (ps ! j))"
        if "j < length ps"
        using that pen [of j] 3 di by (auto simp: set_remove1_eq)
      ultimately show ?thesis by auto
    qed
  qed
  show ?thesis unfolding consistent_def using D L by blast
qed


lemma move_penguin_OkD:
  assumes "move_penguin s a b = Ok () s'"
  shows "\<exists>p n. fmlookup (penguin_positions s) a = Some p
     \<and> players s' = (players s)[p := (players s ! p)
          \<lparr>fish_count := n, penguins := remove1 a (penguins (players s ! p)) @ [b]\<rparr>]
     \<and> penguin_positions s' = fmupd b p (fmdrop a (penguin_positions s))"
proof (cases "fmlookup (penguin_positions s) a")
  case None
  then show ?thesis using assms by (simp add: move_penguin_def)
next
  case (Some p)
  obtain f g where rt: "remove_tile (grid s) (fst a) (snd a) = (f, g)"
    by (cases "remove_tile (grid s) (fst a) (snd a)") auto
  from assms Some rt have p: "p < length (players s)"
    by (simp add: move_penguin_def Let_def update_player_def split: if_splits)
  from assms Some rt p have
    "s' = update_player
            ((update_player (s\<lparr>penguin_positions := fmdrop a (penguin_positions s), grid := g\<rparr>) p
                (\<lambda>q. q\<lparr>fish_count := fish_count q + f\<rparr>))
              \<lparr>penguin_positions := fmupd b p (fmdrop a (penguin_positions s))\<rparr>)
            p (\<lambda>q. q\<lparr>penguins := remove1 a (penguins q) @ [b]\<rparr>)"
    by (simp add: move_penguin_def Let_def update_player_def split: if_splits)
  then have "players s' = (players s)[p := (players s ! p)
          \<lparr>fish_count := fish_count (players s ! p) + f,
           penguins := remove1 a (penguins (players s ! p)) @ [b]\<rparr>]"
    and "penguin_positions s' = fmupd b p (fmdrop a (penguin_positions s))"
    using p by (simp_all add: update_player_def)
  with Some show ?thesis by blast
qed

lemma move_penguin_consistent:
  assumes C: "tokens_consistent s"
    and legal: "to_pos \<in> set (get_valid_moves s (fst from_pos) (snd from_pos))"
    and ok: "move_penguin s from_pos to_pos = Ok () s'"
  shows "tokens_consistent s'"
proof -
  from move_penguin_OkD [OF ok] obtain p n where
    a: "fmlookup (penguin_positions s) from_pos = Some p"
    and ps: "players s' = (players s)[p := (players s ! p)
          \<lparr>fish_count := n, penguins := remove1 from_pos (penguins (players s ! p)) @ [to_pos]\<rparr>]"
    and pos: "penguin_positions s' = fmupd to_pos p (fmdrop from_pos (penguin_positions s))"
    by blast
  have "to_pos |\<notin>| fmdom (penguin_positions s)"
    using legal get_valid_moves_free by blast
  then have b: "fmlookup (penguin_positions s) to_pos = None"
    by (simp add: in_fmdom_lookup)
  show ?thesis
    unfolding tokens_consistent_def ps pos
    using consistent_move [OF C [unfolded tokens_consistent_def] a b] .
qed

lemma place_penguin_at_OkD:
  assumes "place_penguin_at s r c = Ok () s'"
  shows "current_player_index s < length (players s)
     \<and> players s' = (players s)[current_player_index s :=
          (players s ! current_player_index s)
            \<lparr>penguins := penguins (players s ! current_player_index s) @ [(r, c)]\<rparr>]
     \<and> penguin_positions s' = fmupd (r, c) (current_player_index s) (penguin_positions s)"
  using assms
  by (auto simp: place_penguin_at_def Let_def update_player_def split: if_splits)

lemma handle_penguin_placement_consistent:
  assumes C: "tokens_consistent s" and ok: "handle_penguin_placement s r c = Ok () s'"
  shows "tokens_consistent s'"
proof (cases "(r, c) |\<notin>| fmdom (tiles (grid s)) \<or> (r, c) |\<in>| fmdom (penguin_positions s)")
  case True
  then have "s' = s" using ok by (auto simp: handle_penguin_placement_def split: if_splits)
  then show ?thesis using C by simp
next
  case False
  then have free: "fmlookup (penguin_positions s) (r, c) = None"
    by (simp add: in_fmdom_lookup)
  from False ok have "place_penguin_at s r c = Ok () s'"
    by (simp add: handle_penguin_placement_def)
  from place_penguin_at_OkD [OF this] show ?thesis
    unfolding tokens_consistent_def
    using consistent_place [OF C [unfolded tokens_consistent_def] free] by simp
qed

lemma next_turn_loop_frame:
  "next_turn_loop s n = Ok () s' \<Longrightarrow>
     players s' = players s \<and> penguin_positions s' = penguin_positions s"
proof (induction s n rule: next_turn_loop.induct)
  case (1 s attempts)
  show ?case
  proof (cases "attempts < length (players s)")
    case False
    then show ?thesis using "1.prems"
      by (auto simp: next_turn_loop.simps [of s attempts] end_game_def Let_def split: if_splits)
  next
    case True
    let ?s1 = "s\<lparr>current_player_index := (current_player_index s + 1) mod length (players s)\<rparr>"
    show ?thesis
    proof (cases "can_move ?s1 (penguins (players ?s1 ! current_player_index ?s1))")
      case yes: True
      then have "s' = ?s1" using True "1.prems"
        by (simp add: next_turn_loop.simps [of s attempts] Let_def)
      then show ?thesis by simp
    next
      case no: False
      then have "next_turn_loop ?s1 (attempts + 1) = Ok () s'" using True "1.prems"
        by (simp add: next_turn_loop.simps [of s attempts] Let_def)
      from "1.IH" [OF True refl no this] show ?thesis by simp
    qed
  qed
qed

lemma next_turn_consistent:
  "tokens_consistent s \<Longrightarrow> next_turn s = Ok () s' \<Longrightarrow> tokens_consistent s'"
  unfolding next_turn_def tokens_consistent_def
  using next_turn_loop_frame [of s 0 s'] by simp

lemma consistent_tokens_disjoint: "tokens_consistent s \<Longrightarrow> tokens_disjoint s"
  unfolding tokens_consistent_def tokens_disjoint_def by (rule consistent_disjoint)
lemma example_game_consistent: "tokens_consistent example_game"
  unfolding tokens_consistent_def consistent_def example_game_def
  by (auto simp: less_Suc_eq nth_Cons' split: if_splits)

lemma complete_move_consistent:
  assumes "tokens_consistent s"
    and "to_pos \<in> set (get_valid_moves s (fst from_pos) (snd from_pos))"
    and "complete_move s from_pos to_pos player_index = Ok () s'"
  shows "tokens_consistent s' \<and> tokens_disjoint s'"
proof -
  from assms(3) obtain s1 where m: "move_penguin s from_pos to_pos = Ok () s1"
      and n: "next_turn s1 = Ok () s'"
    by (auto simp: complete_move_def split: res.splits)
  from move_penguin_consistent [OF assms(1,2) m] next_turn_consistent n
  have "tokens_consistent s'" by blast
  then show ?thesis using consistent_tokens_disjoint by blast
qed

lemma queue_game_consistent: "tokens_consistent queue_game"
  unfolding tokens_consistent_def consistent_def queue_game_def
  by (auto simp: less_Suc_eq nth_Cons' split: if_splits)

text \<open>
  Claim C9 fails in the running program. \<^verbatim>\<open>_handle_gameplay_click\<close> checks a destination
  against the moves computed when the token was selected, \<^verbatim>\<open>_start_animation\<close> only
  records the move, and \<^verbatim>\<open>on_update\<close> applies it frames later without another check;
  meanwhile \<^verbatim>\<open>on_mouse_press\<close> keeps accepting the human's clicks, because the turn passes
  only when the animation ends. From \<open>queue_game\<close>, whose tokens are on eight different
  cells, the four clicks of \<open>queue_clicks\<close> start the move from \<open>(0, 0)\<close> to \<open>(0, 1)\<close> and,
  while its animation runs, queue the move from \<open>(0, 2)\<close> to \<open>(0, 1)\<close>, both legal when
  clicked. When both animations have ended both moves have been applied, the game is still
  in the Playing phase, and the list of player 0 holds the cell \<open>(0, 1)\<close> twice: two tokens
  on one cell. The computer's own path does wait: \<^verbatim>\<open>on_update\<close> lets it move only when
  no animation is running.
\<close>

theorem queued_move_shares_cell:
  "penguins (players queue_game ! 0) = [(0, 0), (0, 2), (2, 4), (2, 6)]
   \<and> penguins (players queue_game ! 1) = [(4, 0), (4, 2), (4, 4), (4, 6)]
   \<and> is_ai (players queue_game ! current_player_index queue_game) = False
   \<and> get_valid_moves queue_game 0 0 = [(0, 1), (1, 1)]
   \<and> get_valid_moves queue_game 0 2 = [(0, 1)]
   \<and> returned queue_clicks
   \<and> current_animation (final_state queue_clicks) \<noteq> None
   \<and> animation_queue (final_state queue_clicks) = [((0, 2), (0, 1), 0)]
   \<and> penguin_positions (final_state queue_clicks) = penguin_positions queue_game
   \<and> returned queue_run
   \<and> game_state (final_state queue_run) = PLAYING
   \<and> current_animation (final_state queue_run) = None
   \<and> penguins (players (final_state queue_run) ! 0) = [(2, 4), (2, 6), (0, 1), (0, 1)]
   \<and> \<not> distinct (penguins (players (final_state queue_run) ! 0))"
  by code_simp

lemma queue_run_not_disjoint: "\<not> tokens_disjoint (final_state queue_run)"
proof -
  have "penguins (players (final_state queue_run) ! 0) = [(2, 4), (2, 6), (0, 1), (0, 1)]"
    and "length (players (final_state queue_run)) = 2"
    by code_simp+
  then have "0 < length (players (final_state queue_run))"
    and "\<not> distinct (penguins (players (final_state queue_run) ! 0))"
    by simp_all
  then show ?thesis unfolding tokens_disjoint_def by blast
qed

section \<open>The search\<close>

text \<open>
  The temporary moves, the player switches and the evaluation keep the lengths of the token
  lists and the fields outside the search, so the loop bound of \<open>for_penguins\<close> is never
  hit: no search result is \<open>Unmodelled\<close>, whatever the state. A search that returns leaves
  the game object exactly as it found it, because \<^verbatim>\<open>_ai_make_move\<close> puts its four deep
  copies back. When no token of the player to move has a legal move the search returns
  \<^verbatim>\<open>None\<close>. A temporary move with its undo restores everything but the order of the
  owner's token list: the moved token ends up last.
\<close>

lemma framed_refl: "framed s s"
  by (simp add: framed_def)

lemma framed_trans: "framed s s1 \<Longrightarrow> framed s1 s2 \<Longrightarrow> framed s s2"
  by (simp add: framed_def)

lemma framed_restore:
  "framed s s' \<Longrightarrow>
     s'\<lparr>grid := grid s, penguin_positions := penguin_positions s, players := players s,
        current_player_index := current_player_index s\<rparr> = s"
  by (cases s; cases s') (simp add: framed_def)

lemma profile_nth:
  assumes "profile s' = profile s" and "idx < length (players s)"
  shows "length (penguins (players s' ! idx)) = length (penguins (players s ! idx))"
proof -
  have "length (players s') = length (players s)"
    using assms(1) unfolding profile_def by (metis length_map)
  then have "profile s' ! idx = length (penguins (players s' ! idx))"
    and "profile s ! idx = length (penguins (players s ! idx))"
    using assms(2) unfolding profile_def by simp_all
  then show ?thesis using assms(1) by simp
qed

lemma profile_length: "profile s' = profile s \<Longrightarrow> length (players s') = length (players s)"
  unfolding profile_def by (metis length_map)

lemma map_length_update:
  "p < length ps \<Longrightarrow> length (penguins q) = length (penguins (ps ! p)) \<Longrightarrow>
     map (\<lambda>p. length (penguins p)) (ps[p := q]) = map (\<lambda>p. length (penguins p)) ps"
  by (rule nth_equalityI) (auto simp: nth_list_update)

lemma length_remove1_append:
  "a \<in> set xs \<Longrightarrow> length (remove1 a xs @ [b]) = length xs"
  by (induction xs) auto

lemma make_temp_move_Ok:
  assumes "make_temp_move s a b = Ok f s'"
  shows "profile s' = profile s \<and> framed s s'"
proof (cases "fmlookup (penguin_positions s) a")
  case None
  then show ?thesis using assms by (simp add: make_temp_move_def)
next
  case (Some p)
  obtain f0 g where rt: "remove_tile (grid s) (fst a) (snd a) = (f0, g)"
    by (cases "remove_tile (grid s) (fst a) (snd a)") auto
  from assms Some rt have p: "p < length (players s)"
    and mem: "a \<in> set (penguins (players s ! p))"
    by (auto simp: make_temp_move_def Let_def update_player_def split: if_splits)
  from assms Some rt p mem have s': "s' = s
      \<lparr>penguin_positions := fmupd b p (fmdrop a (penguin_positions s)), grid := g,
       players := (players s)[p := (players s ! p)
          \<lparr>fish_count := fish_count (players s ! p) + f0,
           penguins := remove1 a (penguins (players s ! p)) @ [b]\<rparr>]\<rparr>"
    by (auto simp: make_temp_move_def Let_def update_player_def)
  have "profile s' = profile s"
    unfolding profile_def s' using p mem
    by (simp add: map_length_update length_remove1_append del: length_append)
  moreover have "framed s s'" unfolding framed_def s' by simp
  ultimately show ?thesis by blast
qed

lemma make_temp_move_not_unmodelled: "make_temp_move s a b \<noteq> Raised Unmodelled s'"
  by (auto simp: make_temp_move_def Let_def split: option.splits prod.splits if_splits)

lemma undo_temp_move_Ok:
  assumes "undo_temp_move s a b f = Ok u s'"
  shows "profile s' = profile s \<and> framed s s'"
proof (cases "fmlookup (penguin_positions s) b")
  case None
  then show ?thesis using assms by (simp add: undo_temp_move_def)
next
  case (Some p)
  from assms Some have p: "p < length (players s)"
    and mem: "b \<in> set (penguins (players s ! p))"
    by (auto simp: undo_temp_move_def Let_def update_player_def split: if_splits)
  from assms Some p mem have s': "s' = s
      \<lparr>penguin_positions := fmupd a p (fmdrop b (penguin_positions s)),
       grid := (grid s)\<lparr>tiles := fmupd a
           \<lparr>row = fst a, col = snd a, fish = f, exists = True\<rparr> (tiles (grid s))\<rparr>,
       players := (players s)[p := (players s ! p)
          \<lparr>fish_count := fish_count (players s ! p) - f,
           penguins := remove1 b (penguins (players s ! p)) @ [a]\<rparr>]\<rparr>"
    by (auto simp: undo_temp_move_def Let_def update_player_def)
  have "profile s' = profile s"
    unfolding profile_def s' using p mem
    by (simp add: map_length_update length_remove1_append del: length_append)
  moreover have "framed s s'" unfolding framed_def s' by simp
  ultimately show ?thesis by blast
qed

lemma undo_temp_move_not_unmodelled: "undo_temp_move s a b f \<noteq> Raised Unmodelled s'"
  by (auto simp: undo_temp_move_def Let_def split: option.splits if_splits)

lemma switch_player_Ok:
  "switch_player s d = Ok u s' \<Longrightarrow> profile s' = profile s \<and> framed s s'"
  by (auto simp: switch_player_def profile_def framed_def split: if_splits)

lemma switch_player_not_unmodelled: "switch_player s d \<noteq> Raised Unmodelled s'"
  by (auto simp: switch_player_def split: if_splits)

lemma evaluate_Ok: "evaluate s = Ok v s' \<Longrightarrow> s' = s"
  by (auto simp: evaluate_def evaluate_board_def Let_def split: if_splits res.splits)

lemma evaluate_not_unmodelled: "evaluate s \<noteq> Raised Unmodelled s'"
  by (auto simp: evaluate_def evaluate_board_def Let_def split: if_splits res.splits)

lemma good_Ok: "profile s' = profile s \<Longrightarrow> framed s s' \<Longrightarrow> good s (Ok v s')"
  by (simp add: good_def)

lemma good_same: "good s (Ok v s)"
  by (simp add: good_def framed_refl)

lemma good_Raised: "e \<noteq> Unmodelled \<Longrightarrow> good s (Raised e s')"
  by (simp add: good_def)

lemma good_bind:
  assumes r: "good s r"
    and k: "\<And>v s1. r = Ok v s1 \<Longrightarrow> profile s1 = profile s \<Longrightarrow> good s1 (k v s1)"
  shows "good s (case r of Ok v s1 \<Rightarrow> k v s1 | Raised e s' \<Rightarrow> Raised e s')"
proof (cases r)
  case (Ok v s1)
  from r Ok have p: "profile s1 = profile s" and f: "framed s s1"
    by (simp_all add: good_def)
  from k [OF Ok p] have g: "good s1 (k v s1)" .
  show ?thesis
    unfolding good_def Ok using g p f
    by (auto simp: good_def intro: framed_trans)
next
  case (Raised e s')
  then show ?thesis using r by (auto simp: good_def)
qed

lemma good_make_temp_move: "good s (make_temp_move s a b)"
  unfolding good_def using make_temp_move_Ok make_temp_move_not_unmodelled by blast

lemma good_undo_temp_move: "good s (undo_temp_move s a b f)"
  unfolding good_def using undo_temp_move_Ok undo_temp_move_not_unmodelled by blast

lemma good_switch_player: "good s (switch_player s d)"
  unfolding good_def using switch_player_Ok switch_player_not_unmodelled by blast

lemma good_evaluate: "good s (evaluate s)"
  unfolding good_def using evaluate_Ok evaluate_not_unmodelled framed_refl by blast

lemma good_for_moves:
  assumes child: "\<And>a b s. good s (child a b s)"
  shows "good s (for_moves child m pos ms acc s)"
proof (induction ms arbitrary: acc s m)
  case Nil
  show ?case by (simp add: good_same)
next
  case (Cons mv ms)
  obtain best alpha beta where acc: "acc = (best, alpha, beta)" by (cases acc) auto
  show ?case
    unfolding acc for_moves.simps
    by (intro good_bind good_make_temp_move good_switch_player child good_undo_temp_move)
      (simp add: Let_def good_same Cons.IH)
qed

lemma good_for_penguins:
  assumes body: "\<And>pos acc s. good s (body pos acc s)"
  shows "idx < length (players s) \<Longrightarrow> length (penguins (players s ! idx)) \<le> i + bound \<Longrightarrow>
     good s (for_penguins body idx bound i acc s)"
proof (induction bound arbitrary: i acc s)
  case 0
  then show ?case by (simp add: good_same)
next
  case (Suc bound)
  show ?case
  proof (cases "i < length (penguins (players s ! idx))")
    case False
    then show ?thesis by (simp add: good_same)
  next
    case True
    have "good s (case body (penguins (players s ! idx) ! i) acc s of
        Ok acc' s' \<Rightarrow> for_penguins body idx bound (Suc i) acc' s'
      | Raised e s' \<Rightarrow> Raised e s')"
    proof (rule good_bind [OF body])
      fix v s1
      assume p: "profile s1 = profile s"
      have "idx < length (players s1)"
        using profile_length [OF p] Suc.prems(1) by simp
      moreover have "length (penguins (players s1 ! idx)) \<le> Suc i + bound"
        using profile_nth [OF p Suc.prems(1)] Suc.prems(2) by simp
      ultimately show "good s1 (for_penguins body idx bound (Suc i) v s1)"
        by (rule Suc.IH)
    qed
    then show ?thesis using True by simp
  qed
qed

lemma good_minimax: "good s (minimax depth alpha beta m s)"
proof (induction depth arbitrary: alpha beta m s)
  case 0
  show ?case by (simp add: good_evaluate)
next
  case (Suc depth)
  show ?case
  proof (cases "is_game_over s")
    case True
    then show ?thesis by (simp add: good_evaluate)
  next
    case over: False
    show ?thesis
    proof (cases "current_player_index s < length (players s)")
      case False
      then show ?thesis using over by (simp add: good_Raised)
    next
      case True
      let ?loop = "for_penguins
          (\<lambda>penguin_pos acc s'.
             for_moves (\<lambda>a b. minimax depth a b (\<not> m)) m
               penguin_pos (get_valid_moves s' (fst penguin_pos) (snd penguin_pos)) acc s')
          (current_player_index s)
          (length (penguins (players s ! current_player_index s))) 0
          (if m then NegInf else PosInf, alpha, beta) s"
      have L: "good s ?loop"
        by (rule good_for_penguins) (simp_all add: good_for_moves Suc.IH True)
      have "good s (case ?loop of Ok v s1 \<Rightarrow> (case v of (best, a, b) \<Rightarrow> Ok best s1)
          | Raised e s' \<Rightarrow> Raised e s')"
        by (rule good_bind [OF L]) (auto simp: good_same split: prod.splits)
      then show ?thesis using over True
        by (simp add: case_prod_beta split: res.splits prod.splits)
    qed
  qed
qed

lemma good_for_root_moves: "good s (for_root_moves depth pos ms acc s)"
proof (induction ms arbitrary: acc s)
  case Nil
  show ?case by (simp add: good_same)
next
  case (Cons mv ms)
  obtain best_score best_move alpha beta where acc: "acc = (best_score, best_move, alpha, beta)"
    by (cases acc) auto
  show ?case
    unfolding acc for_root_moves.simps
    by (intro good_bind good_make_temp_move good_minimax good_undo_temp_move)
      (simp add: Let_def good_same Cons.IH split: prod.splits)
qed

lemma good_root_loop:
  assumes "current_player_index s < length (players s)"
  shows "good s (for_penguins
      (\<lambda>penguin_pos acc s'.
         for_root_moves (minimax_depth s' - 1) penguin_pos
           (get_valid_moves s' (fst penguin_pos) (snd penguin_pos)) acc s')
      (current_player_index s)
      (length (penguins (players s ! current_player_index s))) 0
      (NegInf, None, NegInf, PosInf) s)"
  by (rule good_for_penguins) (simp_all add: good_for_root_moves assms)

lemma ai_best_move_restores:
  assumes "ai_best_move s = Ok best_move s'"
  shows "s' = s"
proof -
  from assms have d: "minimax_depth s \<noteq> 0" and c: "current_player_index s < length (players s)"
    by (auto simp: ai_best_move_def split: if_splits)
  let ?loop = "for_penguins
      (\<lambda>penguin_pos acc s'.
         for_root_moves (minimax_depth s' - 1) penguin_pos
           (get_valid_moves s' (fst penguin_pos) (snd penguin_pos)) acc s')
      (current_player_index s)
      (length (penguins (players s ! current_player_index s))) 0
      (NegInf, None, NegInf, PosInf) s"
  from assms d c obtain acc s1 where loop: "?loop = Ok acc s1"
    and s': "s' = s1\<lparr>grid := grid s, penguin_positions := penguin_positions s,
          players := players s, current_player_index := current_player_index s\<rparr>"
    by (auto simp: ai_best_move_def split: res.splits prod.splits)
  from good_root_loop [OF c] have
    "\<forall>v s'. ?loop = Ok v s' \<longrightarrow> profile s' = profile s \<and> framed s s'"
    unfolding good_def by blast
  with loop have "framed s s1" by blast
  then show ?thesis unfolding s' by (rule framed_restore)
qed

lemma ai_best_move_within_model:
  assumes "minimax_depth s \<noteq> 0"
  shows "ai_best_move s \<noteq> Raised Unmodelled s'"
proof (cases "current_player_index s < length (players s)")
  case False
  then show ?thesis using assms by (simp add: ai_best_move_def)
next
  case True
  from good_root_loop [OF True] show ?thesis
    using assms True
    by (auto simp: ai_best_move_def good_def split: res.splits prod.splits)
qed

lemma for_penguins_idle:
  assumes "\<forall>pos \<in> set (penguins (players s ! idx)). body pos acc s = Ok acc s"
  shows "length (penguins (players s ! idx)) \<le> i + bound \<Longrightarrow>
     for_penguins body idx bound i acc s = Ok acc s"
proof (induction bound arbitrary: i)
  case 0
  then show ?case by simp
next
  case (Suc bound)
  show ?case
  proof (cases "i < length (penguins (players s ! idx))")
    case False
    then show ?thesis by simp
  next
    case True
    then have "body (penguins (players s ! idx) ! i) acc s = Ok acc s"
      using assms by simp
    moreover have "for_penguins body idx bound (Suc i) acc s = Ok acc s"
      using Suc.prems by (intro Suc.IH) simp
    ultimately show ?thesis using True by simp
  qed
qed

lemma ai_best_move_no_moves:
  assumes d: "minimax_depth s \<noteq> 0" and c: "current_player_index s < length (players s)"
    and stuck: "\<forall>pos \<in> set (penguins (players s ! current_player_index s)).
        get_valid_moves s (fst pos) (snd pos) = []"
  shows "ai_best_move s = Ok None s"
proof -
  have "for_penguins
      (\<lambda>penguin_pos acc s'.
         for_root_moves (minimax_depth s' - 1) penguin_pos
           (get_valid_moves s' (fst penguin_pos) (snd penguin_pos)) acc s')
      (current_player_index s)
      (length (penguins (players s ! current_player_index s))) 0
      (NegInf, None, NegInf, PosInf) s = Ok (NegInf, None, NegInf, PosInf) s"
    by (rule for_penguins_idle) (simp_all add: stuck)
  then show ?thesis using d c by (simp add: ai_best_move_def)
qed

lemma temp_move_then_undo_effect:
  assumes token: "fmlookup (penguin_positions s) from_pos = Some p"
    and owner: "p < length (players s)"
    and listed: "from_pos \<in> set (penguins (players s ! p))"
    and tile: "fmlookup (tiles (grid s)) from_pos
        = Some \<lparr>row = fst from_pos, col = snd from_pos, fish = f, exists = True\<rparr>"
    and free: "fmlookup (penguin_positions s) to_pos = None"
    and fresh: "to_pos \<notin> set (penguins (players s ! p))"
  shows "temp_move_then_undo s from_pos to_pos =
     Ok () (update_player s p
        (\<lambda>q. q\<lparr>penguins := remove1 from_pos (penguins q) @ [from_pos]\<rparr>))"
proof -
  let ?t = "\<lparr>row = fst from_pos, col = snd from_pos, fish = f, exists = True\<rparr>"
  let ?s1 = "s\<lparr>penguin_positions := fmupd to_pos p (fmdrop from_pos (penguin_positions s)),
      grid := (grid s)\<lparr>tiles := fmdrop from_pos (tiles (grid s))\<rparr>,
      players := (players s)[p := (players s ! p)
          \<lparr>fish_count := fish_count (players s ! p) + f,
           penguins := remove1 from_pos (penguins (players s ! p)) @ [to_pos]\<rparr>]\<rparr>"
  have make: "make_temp_move s from_pos to_pos = Ok f ?s1"
    using token owner listed tile
    by (cases from_pos)
      (simp add: make_temp_move_def remove_tile_def update_player_def Let_def)
  have pos: "fmupd from_pos p (fmdrop to_pos (fmupd to_pos p (fmdrop from_pos (penguin_positions s))))
      = penguin_positions s"
    using token free by (intro fmap_ext) auto
  have tl: "fmupd from_pos ?t (fmdrop from_pos (tiles (grid s))) = tiles (grid s)"
    using tile by (intro fmap_ext) auto
  have lst: "remove1 to_pos (remove1 from_pos (penguins (players s ! p)) @ [to_pos])
      = remove1 from_pos (penguins (players s ! p))"
    using fresh by (simp add: remove1_append notin_set_remove1)
  have undo: "undo_temp_move ?s1 from_pos to_pos f =
     Ok () (update_player s p
        (\<lambda>q. q\<lparr>penguins := remove1 from_pos (penguins q) @ [from_pos]\<rparr>))"
    using owner
    by (simp add: undo_temp_move_def update_player_def Let_def pos tl lst)
  show ?thesis by (simp add: temp_move_then_undo_def make undo)
qed

text \<open>
  Claim C6 fails on \<open>corridor_game\<close> at the default depth 3. The computer's token at
  \<open>(0, 0)\<close> has four legal moves, yet the search ends with \<^verbatim>\<open>best_move = None\<close>: after any
  first move the computer can move twice more while the opponent cannot move at all, so
  \<^verbatim>\<open>_minimax\<close> reaches a maximizing node whose player has no move although the game is
  not over, returns \<^verbatim>\<open>float('-inf')\<close> from the empty loop, and the root never sees a score
  above its initial \<^verbatim>\<open>float('-inf')\<close>.
\<close>

theorem ai_best_move_none_with_legal_moves:
  "get_valid_moves corridor_game 0 0 = [(0, 1), (0, 2), (0, 3), (0, 4)]
   \<and> fmlookup (penguin_positions corridor_game) (0, 0) = Some (current_player_index corridor_game)
   \<and> ai_best_move corridor_game = Ok None corridor_game"
  by code_simp

text \<open>
  Claim C7 fails on \<open>order_game\<close>: a temporary move of the token at \<open>(0, 0)\<close> and its undo
  both return, but the undo appends the token to its owner's list instead of putting it
  back in its place, so the list has changed and the state is not the one before.
\<close>

theorem temp_move_then_undo_reorders:
  "penguins (players order_game ! 1) = [(0, 0), (2, 0), (2, 2), (2, 4)]
   \<and> (0, 1) \<in> set (get_valid_moves order_game 0 0)
   \<and> returned (temp_move_then_undo order_game (0, 0) (0, 1))
   \<and> penguins (players (final_state (temp_move_then_undo order_game (0, 0) (0, 1))) ! 1)
       = [(2, 0), (2, 2), (2, 4), (0, 0)]
   \<and> final_state (temp_move_then_undo order_game (0, 0) (0, 1)) \<noteq> order_game"
  by code_simp

text \<open>
  What the changed order does to the search: in \<open>skip_game\<close> the root tries the token at
  \<open>(0, 0)\<close>, whose undo moves it to the end of the live list; the token at \<open>(2, 0)\<close>
  slides to index 0, which the loop has passed, and is never tried, although its move
  scores 3.5 against 1.5. With the token at \<open>(0, 0)\<close> listed last, the same position
  yields the other move.
\<close>

lemma search_skips_token:
  "get_valid_moves skip_game 2 0 = [(2, 1)]
   \<and> for_root_moves 0 (0, 0) [(0, 1)] (NegInf, None, NegInf, PosInf) skip_game
       = Ok (Fin (3 / 2), Some ((0, 0), (0, 1)), Fin (3 / 2), PosInf)
           (update_player skip_game 1
              (\<lambda>p. p\<lparr>penguins := [(2, 0), (4, 2), (4, 4), (0, 0)]\<rparr>))
   \<and> for_root_moves 0 (2, 0) [(2, 1)] (NegInf, None, NegInf, PosInf) skip_game
       = Ok (Fin (7 / 2), Some ((2, 0), (2, 1)), Fin (7 / 2), PosInf)
           (update_player skip_game 1
              (\<lambda>p. p\<lparr>penguins := [(0, 0), (4, 2), (4, 4), (2, 0)]\<rparr>))
   \<and> ai_best_move skip_game = Ok (Some ((0, 0), (0, 1))) skip_game
   \<and> ai_best_move (update_player skip_game 1
              (\<lambda>p. p\<lparr>penguins := [(2, 0), (4, 2), (4, 4), (0, 0)]\<rparr>))
       = Ok (Some ((2, 0), (2, 1)))
           (update_player skip_game 1
              (\<lambda>p. p\<lparr>penguins := [(2, 0), (4, 2), (4, 4), (0, 0)]\<rparr>))"
  by code_simp

text \<open>
  Claim C8 fails at the leaves: \<^verbatim>\<open>_evaluate_board\<close> takes the side of
  \<^verbatim>\<open>self.current_player_index\<close>, the player to move at the node, and \<^verbatim>\<open>_minimax\<close> is not
  told who searches. On the final position \<open>stuck_game\<close> (scores 30 and 28, no mobility)
  the same call returns 2 when player 0 is to move and -2 when player 1 is, at the depth
  cutoff and at a terminal position alike.
\<close>

theorem minimax_leaf_follows_mover:
  "minimax 0 NegInf PosInf True stuck_game = Ok (Fin 2) stuck_game
   \<and> minimax 0 NegInf PosInf True (stuck_game\<lparr>current_player_index := 1\<rparr>)
       = Ok (Fin (- 2)) (stuck_game\<lparr>current_player_index := 1\<rparr>)
   \<and> is_game_over stuck_game
   \<and> minimax 2 NegInf PosInf True stuck_game = Ok (Fin 2) stuck_game
   \<and> minimax 2 NegInf PosInf True (stuck_game\<lparr>current_player_index := 1\<rparr>)
       = Ok (Fin (- 2)) (stuck_game\<lparr>current_player_index := 1\<rparr>)"
  by code_simp

end
